theory Spec2Isabelle
  imports Complex_Main "HOL-Library.Word" "HOL-Library.Log_Nat"
begin

section \<open>Exceptions\<close>

text \<open>
  The exceptions that the modelled functions of \<^verbatim>\<open>simulate_data.py\<close> and
  \<^verbatim>\<open>test_connection.py\<close> raise. \<open>DbError\<close> stands for any exception (a subclass of
  \<^verbatim>\<open>Exception\<close>) raised by a call into the database driver.
\<close>

datatype py_error =
    ZeroDivisionError
  | ValueError
  | KeyError
  | TypeError
  | AttributeError
  | DbError

section \<open>Floating point\<close>

text \<open>
  A Python float is an IEEE 754 binary64 number and is modelled by the rational it denotes.
  An arithmetic operation returns the exact result rounded to the nearest number with a
  53-bit significand, a tie going to the even significand. \<open>ilog2 x\<close> is the binary exponent
  \<open>\<lfloor>log\<^sub>2 x\<rfloor>\<close> of a positive \<open>x\<close>, computed from the bit lengths of numerator and denominator;
  \<open>fl\<close> is the rounding. The exponent is not bounded in the model: the floats of this program
  are zero or lie between \<open>2\<^sup>-\<^sup>5\<^sup>3\<close> and \<open>1000\<close>, far from overflow and from the subnormal range.
\<close>

definition round_half_even :: "rat \<Rightarrow> int" where
  "round_half_even x =
     (let f = \<lfloor>x\<rfloor>; d = x - of_int f
      in if d < 1 / 2 then f
         else if 1 / 2 < d then f + 1
         else if even f then f else f + 1)"

definition ilog2 :: "rat \<Rightarrow> int" where
  "ilog2 x =
     (let (p, q) = quotient_of x; e = bitlen p - bitlen q
      in if power_int 2 e \<le> x then e else e - 1)"

definition fl :: "rat \<Rightarrow> rat" where
  "fl x =
     (if x = 0 then 0
      else (let u = power_int 2 (ilog2 \<bar>x\<bar> - 52)
            in of_int (round_half_even (x / u)) * u))"

definition fadd :: "rat \<Rightarrow> rat \<Rightarrow> rat" where
  "fadd a b = fl (a + b)"

definition fsub :: "rat \<Rightarrow> rat \<Rightarrow> rat" where
  "fsub a b = fl (a - b)"

definition fmul :: "rat \<Rightarrow> rat \<Rightarrow> rat" where
  "fmul a b = fl (a * b)"

section \<open>The record generator\<close>

text \<open>
  \<^verbatim>\<open>random.random()\<close> returns a 53-bit integer scaled by \<open>2 ^ 53\<close>, which is a float. The
  global generator is modelled by the sequence of 53-bit integers it hands out: \<open>g k\<close> is
  the integer behind the \<open>k\<close>-th call, and the position \<open>k\<close> is the state that the calls
  advance.
\<close>

type_synonym rng = "nat \<Rightarrow> 53 word"

definition random_random :: "rng \<Rightarrow> nat \<Rightarrow> rat" where
  "random_random g k = of_nat (unat (g k)) / 2 ^ 53"

text \<open>\<^verbatim>\<open>random.uniform(a, b)\<close> is \<^verbatim>\<open>a + (b - a) * self.random()\<close>, in floats.\<close>

definition uniform :: "rat \<Rightarrow> rat \<Rightarrow> rat \<Rightarrow> rat" where
  "uniform a b r = fadd a (fmul (fsub b a) r)"

text \<open>
  \<^verbatim>\<open>round(x, 2)\<close> of a float: the exact value of \<open>x\<close> is rounded to the nearest multiple of
  \<open>1/100\<close>, a tie going to the even one, and the float nearest to that decimal is returned.
\<close>

definition py_round2 :: "rat \<Rightarrow> rat" where
  "py_round2 x = fl (of_int (round_half_even (x * 100)) / 100)"

text \<open>\<^verbatim>\<open>string.ascii_letters + string.digits\<close>\<close>

definition ascii_letters :: string where
  "ascii_letters = ''abcdefghijklmnopqrstuvwxyzABCDEFGHIJKLMNOPQRSTUVWXYZ''"

definition digits :: string where
  "digits = ''0123456789''"

definition alphabet :: string where
  "alphabet = ascii_letters @ digits"

text \<open>
  \<^verbatim>\<open>random.choices(population, k=k)\<close> without weights is
  \<^verbatim>\<open>[population[floor(random() * n)] for i in repeat(None, k)]\<close>, where \<^verbatim>\<open>n\<close> is the length
  of the population as a float and the product is a float product; the \<open>k\<close> calls of
  \<^verbatim>\<open>random()\<close> are the draws at positions \<open>pos, ..., pos + k - 1\<close>. For the 62 symbols of the
  alphabet the index is below 62, so the subscript is in range.
\<close>

definition choices :: "rng \<Rightarrow> nat \<Rightarrow> 'a list \<Rightarrow> nat \<Rightarrow> 'a list" where
  "choices g pos population k =
     map (\<lambda>j. population ! nat \<lfloor>fmul (random_random g j) (of_nat (length population))\<rfloor>)
       [pos ..< pos + k]"

text \<open>A record is the tuple \<^verbatim>\<open>(amount, description)\<close>; a batch is a list of records.\<close>

type_synonym data_record = "rat \<times> string"
type_synonym batch = "data_record list"

text \<open>
  The two statements that generate one record (lines 160-161, and again 111-113 and
  207-208): one draw for the amount, then ten for the description.
\<close>

definition gen_record :: "rng \<Rightarrow> nat \<Rightarrow> data_record" where
  "gen_record g pos =
     (py_round2 (uniform 1 1000 (random_random g pos)), choices g (pos + 1) alphabet 10)"

section \<open>The batch sequencer\<close>

text \<open>
  \<^verbatim>\<open>generate_batches(num_records, batch_size)\<close>. The loop runs over
  \<^verbatim>\<open>range(1, num_records + 1)\<close>, that is \<open>[1..num_records]\<close>, with the local list
  \<^verbatim>\<open>batch\<close>; the result is the list of the batches yielded, in order, and the exception that
  ended the generator, if one did. \<^verbatim>\<open>i % batch_size\<close> raises for \<open>batch_size = 0\<close>; Python's
  \<^verbatim>\<open>%\<close> on integers takes the sign of the divisor, as \<open>mod\<close> on \<open>int\<close> does.
\<close>

fun generate_loop ::
  "rng \<Rightarrow> int \<Rightarrow> int list \<Rightarrow> nat \<Rightarrow> batch \<Rightarrow> batch list \<times> py_error option" where
  "generate_loop g batch_size [] pos batch = (if batch \<noteq> [] then [batch] else [], None)"
| "generate_loop g batch_size (i # is) pos batch =
     (let batch' = batch @ [gen_record g pos]
      in if batch_size = 0 then ([], Some ZeroDivisionError)
         else if i mod batch_size = 0
           then (let (ys, e) = generate_loop g batch_size is (pos + 11) []
                 in (batch' # ys, e))
           else generate_loop g batch_size is (pos + 11) batch')"

definition generate_batches ::
  "rng \<Rightarrow> nat \<Rightarrow> int \<Rightarrow> int \<Rightarrow> batch list \<times> py_error option" where
  "generate_batches g pos num_records batch_size =
     generate_loop g batch_size [1..num_records] pos []"

section \<open>The database driver as an environment\<close>

text \<open>
  The calls into \<^verbatim>\<open>psycopg2\<close> are the program's effects. Each call is recorded as an event of
  a trace, in the order in which it is made, and its outcome (return or raise) is given by
  the environment: \<open>None\<close> when the call returns, \<open>Some e\<close> when it raises \<open>e\<close>. Every raised
  value is an instance of \<^verbatim>\<open>Exception\<close>, so an \<^verbatim>\<open>except Exception\<close> clause catches it.
\<close>

type_synonym conn = nat

datatype db_call =
    GetConn
  | Cursor
  | ExecuteValues
  | CursorClose
  | Commit
  | Rollback
  | PutConn

datatype event =
    EvPoolCreate int int
  | EvGetConn
  | EvCursor conn
  | EvExecute conn string batch
  | EvCursorClose conn
  | EvCommit conn
  | EvRollback conn
  | EvPutConn conn
  | EvPrint string py_error
  | EvCloseAll

type_synonym outcomes = "db_call \<Rightarrow> py_error option"

text \<open>\<^verbatim>\<open>f"INSERT INTO {table_name} (amount, description) VALUES %s"\<close>\<close>

definition insert_sql :: "string \<Rightarrow> string" where
  "insert_sql table_name = ''INSERT INTO '' @ table_name @ '' (amount, description) VALUES %s''"

section \<open>The batch inserter of the concurrent path\<close>

text \<open>
  \<^verbatim>\<open>with conn.cursor() as cur: execute_values(cur, insert_sql, batch)\<close>. When the cursor has
  been created, leaving the block closes it, whether the body raised or not; an exception of
  the close replaces the one of the body.
\<close>

definition with_cursor :: "outcomes \<Rightarrow> conn \<Rightarrow> string \<Rightarrow> batch \<Rightarrow> event list \<times> py_error option" where
  "with_cursor oc c sql batch =
     (case oc Cursor of
        Some e \<Rightarrow> ([EvCursor c], Some e)
      | None \<Rightarrow>
          ([EvCursor c, EvExecute c sql batch, EvCursorClose c],
           case oc CursorClose of Some e \<Rightarrow> Some e | None \<Rightarrow> oc ExecuteValues))"

text \<open>
  \<^verbatim>\<open>insert_batch_pool(connection_pool, table_name, batch)\<close>, lines 134-151. \<open>c\<close> is the
  connection that \<^verbatim>\<open>getconn\<close> hands out when it returns. The result is the trace of the calls
  made and the exception that leaves the function, \<open>None\<close> when it returns normally.
  The \<^verbatim>\<open>try\<close> block is \<^verbatim>\<open>getconn\<close>, the cursor block and \<^verbatim>\<open>commit\<close>; the \<^verbatim>\<open>except Exception\<close>
  clause prints and, when \<^verbatim>\<open>conn\<close> is set, calls \<^verbatim>\<open>rollback\<close>; the \<^verbatim>\<open>finally\<close> clause calls
  \<^verbatim>\<open>putconn\<close> when \<^verbatim>\<open>conn\<close> is set. An exception raised inside the handler leaves the function
  after the \<^verbatim>\<open>finally\<close> clause has run, unless that clause raises itself.
\<close>

definition insert_batch_pool ::
  "outcomes \<Rightarrow> conn \<Rightarrow> string \<Rightarrow> batch \<Rightarrow> event list \<times> py_error option" where
  "insert_batch_pool oc c table_name batch =
     (case oc GetConn of
        Some e \<Rightarrow> ([EvGetConn, EvPrint table_name e], None)
      | None \<Rightarrow>
          (let (ev1, r1) = with_cursor oc c (insert_sql table_name) batch;
               (ev2, r2) = (case r1 of Some e \<Rightarrow> ([], Some e) | None \<Rightarrow> ([EvCommit c], oc Commit));
               (ev3, r3) = (case r2 of
                              None \<Rightarrow> ([], None)
                            | Some e \<Rightarrow> ([EvPrint table_name e, EvRollback c], oc Rollback));
               r4 = (case oc PutConn of Some e \<Rightarrow> Some e | None \<Rightarrow> r3)
           in (EvGetConn # ev1 @ ev2 @ ev3 @ [EvPutConn c], r4)))"

text \<open>Some call of the \<^verbatim>\<open>try\<close> block after \<^verbatim>\<open>getconn\<close> raises.\<close>

definition insert_fails :: "outcomes \<Rightarrow> bool" where
  "insert_fails oc \<longleftrightarrow>
     oc Cursor \<noteq> None \<or> oc ExecuteValues \<noteq> None \<or> oc CursorClose \<noteq> None \<or> oc Commit \<noteq> None"

section \<open>The concurrent load driver\<close>

text \<open>
  The environment of one run of \<^verbatim>\<open>insert_records_concurrent\<close>: whether \<^verbatim>\<open>tqdm\<close> can be
  imported, the outcome of constructing the pool, the connection and the call outcomes that
  the worker of the \<open>k\<close>-th submitted batch meets, and the outcome of \<^verbatim>\<open>closeall\<close>.
\<close>

record driver_env =
  has_tqdm :: bool
  pool_create :: "py_error option"
  worker_conn :: "nat \<Rightarrow> conn"
  worker_outcomes :: "nat \<Rightarrow> outcomes"
  closeall :: "py_error option"

text \<open>
  \<^verbatim>\<open>future.result()\<close> over the futures: the first stored exception is raised again.
\<close>

fun first_error :: "py_error option list \<Rightarrow> py_error option" where
  "first_error [] = None"
| "first_error (Some e # rs) = Some e"
| "first_error (None # rs) = first_error rs"

text \<open>The workers of the submitted batches, numbered from \<open>k\<close>.\<close>

fun run_workers ::
  "driver_env \<Rightarrow> string \<Rightarrow> nat \<Rightarrow> batch list \<Rightarrow> (event list \<times> py_error option) list" where
  "run_workers env table_name k [] = []"
| "run_workers env table_name k (b # bs) =
     insert_batch_pool (worker_outcomes env k) (worker_conn env k) table_name b
       # run_workers env table_name (Suc k) bs"

text \<open>
  \<^verbatim>\<open>insert_records_concurrent(db_params, table_name, num_records, batch_size, num_workers)\<close>,
  lines 169-194. With \<^verbatim>\<open>tqdm\<close> present the progress total
  \<^verbatim>\<open>(num_records + batch_size - 1) // batch_size\<close> is computed first and raises for a zero batch
  size (only \<^verbatim>\<open>ImportError\<close> is caught there). Then the pool is constructed with
  \<^verbatim>\<open>SimpleConnectionPool(1, num_workers, ...)\<close>; \<^verbatim>\<open>ThreadPoolExecutor(max_workers=num_workers)\<close>
  raises \<^verbatim>\<open>ValueError\<close> for \<open>num_workers \<le> 0\<close>; every batch of the generator is submitted; the
  results of the futures are read; \<^verbatim>\<open>closeall\<close> is the last statement, outside any
  \<^verbatim>\<open>finally\<close>. An exception that leaves the \<^verbatim>\<open>with\<close> block of the executor does so after the
  submitted workers have finished.

  The trace lists the calls of each worker contiguously, in the order of submission, which
  is one of the schedules of the thread pool; the futures are read in that order as well.
  Which call raises is fixed by the environment and not by the schedule.
\<close>

definition insert_records_concurrent ::
  "driver_env \<Rightarrow> rng \<Rightarrow> nat \<Rightarrow> string \<Rightarrow> int \<Rightarrow> int \<Rightarrow> int \<Rightarrow> event list \<times> py_error option" where
  "insert_records_concurrent env g pos table_name num_records batch_size num_workers =
     (if has_tqdm env \<and> batch_size = 0 then ([], Some ZeroDivisionError)
      else case pool_create env of
        Some e \<Rightarrow> ([EvPoolCreate 1 num_workers], Some e)
      | None \<Rightarrow>
          if num_workers \<le> 0 then ([EvPoolCreate 1 num_workers], Some ValueError)
          else
            (let (batches, gen_err) = generate_batches g pos num_records batch_size;
                 runs = run_workers env table_name 0 batches;
                 trace = concat (map fst runs)
             in case gen_err of
                  Some e \<Rightarrow> (EvPoolCreate 1 num_workers # trace, Some e)
                | None \<Rightarrow>
                    (case first_error (map snd runs) of
                       Some e \<Rightarrow> (EvPoolCreate 1 num_workers # trace, Some e)
                     | None \<Rightarrow>
                         (EvPoolCreate 1 num_workers # trace @ [EvCloseAll], closeall env))))"

section \<open>The sequential load driver\<close>

text \<open>
  The environment of one run of \<^verbatim>\<open>insert_records\<close>: the outcomes of creating and of closing
  the cursor, and of the \<open>k\<close>-th call of \<^verbatim>\<open>execute_values\<close> and of \<^verbatim>\<open>conn.commit\<close>. The progress
  bar has no part in the control flow and is left out.
\<close>

record seq_env =
  cursor_outcome :: "py_error option"
  close_outcome :: "py_error option"
  execute_outcome :: "nat \<Rightarrow> py_error option"
  commit_outcome :: "nat \<Rightarrow> py_error option"

text \<open>\<^verbatim>\<open>execute_values(cur, insert_sql, records); conn.commit()\<close> for the \<open>k\<close>-th batch.\<close>

definition insert_batch ::
  "seq_env \<Rightarrow> conn \<Rightarrow> string \<Rightarrow> nat \<Rightarrow> batch \<Rightarrow> event list \<times> py_error option" where
  "insert_batch env c sql k records =
     (case execute_outcome env k of
        Some e \<Rightarrow> ([EvExecute c sql records], Some e)
      | None \<Rightarrow> ([EvExecute c sql records, EvCommit c], commit_outcome env k))"

text \<open>
  The loop of lines 109-122 followed by the remainder of lines 125-127. The state is the
  position of the random generator, the number \<open>k\<close> of batches inserted so far and the list
  \<^verbatim>\<open>records\<close>. The result is the trace, the final position of the random generator and the
  exception raised, if any.
\<close>

fun insert_loop ::
  "seq_env \<Rightarrow> rng \<Rightarrow> conn \<Rightarrow> string \<Rightarrow> int \<Rightarrow> int list \<Rightarrow> nat \<Rightarrow> nat \<Rightarrow> batch
     \<Rightarrow> event list \<times> nat \<times> py_error option" where
  "insert_loop env g c sql batch_size [] pos k records =
     (if records \<noteq> []
      then (let (ev, r) = insert_batch env c sql k records in (ev, pos, r))
      else ([], pos, None))"
| "insert_loop env g c sql batch_size (i # is) pos k records =
     (let records' = records @ [gen_record g pos]
      in if batch_size = 0 then ([], pos + 11, Some ZeroDivisionError)
         else if i mod batch_size = 0
           then (case insert_batch env c sql k records' of
                   (ev, Some e) \<Rightarrow> (ev, pos + 11, Some e)
                 | (ev, None) \<Rightarrow>
                     (let (ev', pos', r) = insert_loop env g c sql batch_size is (pos + 11) (Suc k) []
                      in (ev @ ev', pos', r)))
           else insert_loop env g c sql batch_size is (pos + 11) k records')"

text \<open>
  \<^verbatim>\<open>insert_records(conn, table_name, num_records, batch_size)\<close>, lines 95-132, on the
  connection \<open>c\<close>.
\<close>

definition insert_records ::
  "seq_env \<Rightarrow> rng \<Rightarrow> nat \<Rightarrow> conn \<Rightarrow> string \<Rightarrow> int \<Rightarrow> int \<Rightarrow> event list \<times> nat \<times> py_error option" where
  "insert_records env g pos c table_name num_records batch_size =
     (case cursor_outcome env of
        Some e \<Rightarrow> ([EvCursor c], pos, Some e)
      | None \<Rightarrow>
          (let (ev, pos', r) =
                 insert_loop env g c (insert_sql table_name) batch_size [1..num_records] pos 0 []
           in (EvCursor c # ev @ [EvCursorClose c], pos',
               case close_outcome env of Some e \<Rightarrow> Some e | None \<Rightarrow> r)))"

section \<open>Strings and integers of Python\<close>

text \<open>
  A Python string is modelled by a list of characters with code points below 256.
  \<^verbatim>\<open>s.startswith(p)\<close>, \<^verbatim>\<open>s.split(sep)\<close> with a one-character separator (every occurrence
  splits, and the result has at least one element), and \<^verbatim>\<open>s.split(sep, 1)\<close> (only the first
  occurrence splits).
\<close>

definition startswith :: "string \<Rightarrow> string \<Rightarrow> bool" where
  "startswith s p \<longleftrightarrow> take (length p) s = p"

fun split_from :: "char \<Rightarrow> string \<Rightarrow> string \<Rightarrow> string list" where
  "split_from sep cur [] = [cur]"
| "split_from sep cur (ch # cs) =
     (if ch = sep then cur # split_from sep [] cs else split_from sep (cur @ [ch]) cs)"

definition split_all :: "char \<Rightarrow> string \<Rightarrow> string list" where
  "split_all sep s = split_from sep [] s"

definition split_once :: "char \<Rightarrow> string \<Rightarrow> string list" where
  "split_once sep s =
     (if sep \<in> set s
      then [takeWhile (\<lambda>ch. ch \<noteq> sep) s, tl (dropWhile (\<lambda>ch. ch \<noteq> sep) s)]
      else [s])"

text \<open>
  The assignment \<^verbatim>\<open>a, b = xs\<close> raises \<^verbatim>\<open>ValueError\<close> unless \<^verbatim>\<open>xs\<close> has exactly two elements.
\<close>

fun unpack2 :: "'a list \<Rightarrow> py_error + ('a \<times> 'a)" where
  "unpack2 [a, b] = Inr (a, b)"
| "unpack2 _ = Inl ValueError"

text \<open>
  \<^verbatim>\<open>int(s)\<close> for a string, base 10: surrounding whitespace is stripped, one sign is allowed,
  and the rest must be decimal digits, single underscores being allowed between digits.
  Anything else raises \<^verbatim>\<open>ValueError\<close>, and so does a string of more than 4300 digits (the
  default of \<^verbatim>\<open>sys.int_max_str_digits\<close>; leading zeros count, sign and underscores do not).
  Below code point 256 the characters that \<^verbatim>\<open>int\<close> strips are 9-13, 32, 133 and 160 (the
  separators 28-31 are not stripped), and the decimal digits are \<open>0\<close>-\<open>9\<close>.
\<close>

definition is_space :: "char \<Rightarrow> bool" where
  "is_space ch \<longleftrightarrow>
     (let n = (of_char ch :: nat)
      in (9 \<le> n \<and> n \<le> 13) \<or> n = 32 \<or> n = 133 \<or> n = 160)"

definition is_digit :: "char \<Rightarrow> bool" where
  "is_digit ch \<longleftrightarrow> (let n = (of_char ch :: nat) in 48 \<le> n \<and> n \<le> 57)"

definition strip :: "string \<Rightarrow> string" where
  "strip s = rev (dropWhile is_space (rev (dropWhile is_space s)))"

fun valid_digits :: "string \<Rightarrow> bool" where
  "valid_digits [] = False"
| "valid_digits [ch] = is_digit ch"
| "valid_digits (ch # d # cs) =
     (is_digit ch \<and> (if d = CHR ''_'' then valid_digits cs else valid_digits (d # cs)))"

definition digits_value :: "string \<Rightarrow> int" where
  "digits_value s =
     foldl (\<lambda>acc ch. if ch = CHR ''_'' then acc else acc * 10 + (int (of_char ch) - 48)) 0 s"

definition int_max_str_digits :: nat where
  "int_max_str_digits = 4300"

definition py_int :: "string \<Rightarrow> py_error + int" where
  "py_int s =
     (let t = strip s;
          (neg, body) =
            (case t of
               [] \<Rightarrow> (False, [])
             | ch # rest \<Rightarrow>
                 if ch = CHR ''-'' then (True, rest)
                 else if ch = CHR ''+'' then (False, rest)
                 else (False, t))
      in if valid_digits body \<and> length (filter is_digit body) \<le> int_max_str_digits
         then Inr (if neg then - digits_value body else digits_value body)
         else Inl ValueError)"

section \<open>Parsing the JDBC URL\<close>

text \<open>The dictionary \<^verbatim>\<open>{"host": host, "port": port, "dbname": dbname}\<close>.\<close>

record jdbc_params =
  host :: string
  port :: int
  dbname :: string

text \<open>
  \<^verbatim>\<open>parse_jdbc_url\<close> of \<^verbatim>\<open>simulate_data.py\<close>, lines 13-33. Every exception of the \<^verbatim>\<open>try\<close> block
  is raised again as a \<^verbatim>\<open>ValueError\<close>. The host and the port are separated by
  \<^verbatim>\<open>host_port.split(':')\<close>.
\<close>

definition parse_jdbc_url :: "string \<Rightarrow> py_error + jdbc_params" where
  "parse_jdbc_url jdbc_url =
     (let url1 = (if startswith jdbc_url ''jdbc:'' then drop (length ''jdbc:'') jdbc_url
                  else jdbc_url)
      in if \<not> startswith url1 ''postgresql://'' then Inl ValueError
         else
           (let url2 = drop (length ''postgresql://'') url1
            in case unpack2 (split_once CHR ''/'' url2) of
                 Inl e \<Rightarrow> Inl ValueError
               | Inr (host_port, db) \<Rightarrow>
                   (case unpack2 (split_all CHR '':'' host_port) of
                      Inl e \<Rightarrow> Inl ValueError
                    | Inr (h, p) \<Rightarrow>
                        (case py_int p of
                           Inl e \<Rightarrow> Inl ValueError
                         | Inr n \<Rightarrow> Inr \<lparr>host = h, port = n, dbname = db\<rparr>))))"

text \<open>
  \<^verbatim>\<open>parse_jdbc_url\<close> of \<^verbatim>\<open>test_connection.py\<close>, lines 6-28: the same, except that the host
  and the port are separated by \<^verbatim>\<open>host_port.split(":", 1)\<close>.
\<close>

definition parse_jdbc_url_test_connection :: "string \<Rightarrow> py_error + jdbc_params" where
  "parse_jdbc_url_test_connection jdbc_url =
     (let url1 = (if startswith jdbc_url ''jdbc:'' then drop (length ''jdbc:'') jdbc_url
                  else jdbc_url)
      in if \<not> startswith url1 ''postgresql://'' then Inl ValueError
         else
           (let url2 = drop (length ''postgresql://'') url1
            in case unpack2 (split_once CHR ''/'' url2) of
                 Inl e \<Rightarrow> Inl ValueError
               | Inr (host_port, db) \<Rightarrow>
                   (case unpack2 (split_once CHR '':'' host_port) of
                      Inl e \<Rightarrow> Inl ValueError
                    | Inr (h, p) \<Rightarrow>
                        (case py_int p of
                           Inl e \<Rightarrow> Inl ValueError
                         | Inr n \<Rightarrow> Inr \<lparr>host = h, port = n, dbname = db\<rparr>))))"

section \<open>Loading the configuration\<close>

text \<open>
  The value that \<^verbatim>\<open>json.load\<close> returns. An object is a dictionary, given by the list of its
  items: the value of a key is the one \<open>map_of\<close> finds. A float is modelled by the rational
  it denotes; \<^verbatim>\<open>NaN\<close> and the infinities are left out.
\<close>

datatype json =
    JNull
  | JBool bool
  | JInt int
  | JFloat rat
  | JStr string
  | JList "json list"
  | JObj "(string \<times> json) list"

text \<open>The truth value of a Python object, as tested by a conditional expression.\<close>

fun truthy :: "json \<Rightarrow> bool" where
  "truthy JNull = False"
| "truthy (JBool b) = b"
| "truthy (JInt n) = (n \<noteq> 0)"
| "truthy (JFloat q) = (q \<noteq> 0)"
| "truthy (JStr s) = (s \<noteq> [])"
| "truthy (JList xs) = (xs \<noteq> [])"
| "truthy (JObj kvs) = (kvs \<noteq> [])"

text \<open>\<^verbatim>\<open>sub in s\<close> on strings.\<close>

fun is_substring :: "string \<Rightarrow> string \<Rightarrow> bool" where
  "is_substring sub [] = (sub = [])"
| "is_substring sub (ch # cs) = (take (length sub) (ch # cs) = sub \<or> is_substring sub cs)"

text \<open>
  \<^verbatim>\<open>key in obj\<close>, \<^verbatim>\<open>obj[key]\<close> and \<^verbatim>\<open>obj.get(key, default)\<close> for a string \<^verbatim>\<open>key\<close>: membership
  is among the keys of a dictionary, the elements of a list or the substrings of a string,
  and a type error otherwise; only a dictionary can be subscripted with a string, and only
  a dictionary has \<^verbatim>\<open>get\<close>.
\<close>

fun py_in :: "string \<Rightarrow> json \<Rightarrow> py_error + bool" where
  "py_in key (JObj kvs) = Inr (key \<in> set (map fst kvs))"
| "py_in key (JList xs) = Inr (JStr key \<in> set xs)"
| "py_in key (JStr s) = Inr (is_substring key s)"
| "py_in key _ = Inl TypeError"

fun py_getitem :: "json \<Rightarrow> string \<Rightarrow> py_error + json" where
  "py_getitem (JObj kvs) key = (case map_of kvs key of None \<Rightarrow> Inl KeyError | Some v \<Rightarrow> Inr v)"
| "py_getitem _ key = Inl TypeError"

fun py_get :: "json \<Rightarrow> string \<Rightarrow> json \<Rightarrow> py_error + json" where
  "py_get (JObj kvs) key dflt = Inr (case map_of kvs key of None \<Rightarrow> dflt | Some v \<Rightarrow> v)"
| "py_get _ key dflt = Inl AttributeError"

text \<open>The dictionary \<^verbatim>\<open>db_params\<close> that \<^verbatim>\<open>load_db_config\<close> returns.\<close>

record db_params = jdbc_params +
  user :: json
  password :: json
  sslmode :: string

text \<open>
  \<^verbatim>\<open>load_db_config(config_file, alias)\<close> after the file has been read: \<open>config_data\<close> is the
  value of \<^verbatim>\<open>json.load(f)\<close>. The two modules have the same body, each calling the
  \<^verbatim>\<open>parse_jdbc_url\<close> of its own module, which is the parameter \<open>parse\<close> here. A URL that is
  not a string has no \<^verbatim>\<open>startswith\<close>.
\<close>

definition load_db_config_with ::
  "(string \<Rightarrow> py_error + jdbc_params) \<Rightarrow> json \<Rightarrow> string \<Rightarrow> py_error + db_params" where
  "load_db_config_with parse config_data alias =
     (case py_in alias config_data of
        Inl e \<Rightarrow> Inl e
      | Inr False \<Rightarrow> Inl ValueError
      | Inr True \<Rightarrow>
          (case py_getitem config_data alias of
             Inl e \<Rightarrow> Inl e
           | Inr conn_info \<Rightarrow>
               (case py_getitem conn_info ''url'' of
                  Inl e \<Rightarrow> Inl e
                | Inr url \<Rightarrow>
                    (case (case url of JStr u \<Rightarrow> parse u | _ \<Rightarrow> Inl AttributeError) of
                       Inl e \<Rightarrow> Inl e
                     | Inr p \<Rightarrow>
                         (case py_get conn_info ''username'' (JStr []) of
                            Inl e \<Rightarrow> Inl e
                          | Inr u \<Rightarrow>
                              (case py_get conn_info ''password'' (JStr []) of
                                 Inl e \<Rightarrow> Inl e
                               | Inr pw \<Rightarrow>
                                   (case py_get conn_info ''ssl'' JNull of
                                      Inl e \<Rightarrow> Inl e
                                    | Inr ssl \<Rightarrow>
                                        Inr \<lparr>host = host p, port = port p, dbname = dbname p,
                                             user = u, password = pw,
                                             sslmode = (if truthy ssl then ''require''
                                                        else ''disable'')\<rparr>)))))))"

definition load_db_config :: "json \<Rightarrow> string \<Rightarrow> py_error + db_params" where
  "load_db_config = load_db_config_with parse_jdbc_url"

definition load_db_config_test_connection :: "json \<Rightarrow> string \<Rightarrow> py_error + db_params" where
  "load_db_config_test_connection = load_db_config_with parse_jdbc_url_test_connection"

text \<open>The \<^verbatim>\<open>ssl\<close> entry of the configuration of an alias, \<^verbatim>\<open>None\<close> when there is none.\<close>

definition ssl_flag :: "json \<Rightarrow> string \<Rightarrow> json" where
  "ssl_flag config_data alias =
     (case py_getitem config_data alias of
        Inr (JObj kvs) \<Rightarrow> (case map_of kvs ''ssl'' of None \<Rightarrow> JNull | Some v \<Rightarrow> v)
      | _ \<Rightarrow> JNull)"

definition example_config :: json where
  "example_config =
     JObj [(''PSQLDS1'',
            JObj [(''url'', JStr ''jdbc:postgresql://localhost:5432/mydb''),
                  (''username'', JStr ''myuser''),
                  (''password'', JStr ''mypassword''),
                  (''ssl'', JBool True)])]"

section \<open>Well-formed records\<close>

text \<open>
  The alphabet \<open>[A-Za-z0-9]\<close> by character code, and the shape of a record: a description
  of ten such characters and an amount between 1 and 1000 that is the float nearest to a
  whole number of hundredths, which is what a float with two decimal places is.
\<close>

definition is_alnum :: "char \<Rightarrow> bool" where
  "is_alnum ch \<longleftrightarrow>
     (let n = (of_char ch :: nat)
      in (65 \<le> n \<and> n \<le> 90) \<or> (97 \<le> n \<and> n \<le> 122) \<or> (48 \<le> n \<and> n \<le> 57))"

definition well_formed_record :: "data_record \<Rightarrow> bool" where
  "well_formed_record r \<longleftrightarrow>
     length (snd r) = 10 \<and> list_all is_alnum (snd r)
     \<and> 1 \<le> fst r \<and> fst r \<le> 1000 \<and> (\<exists>k::int. fst r = fl (of_int k / 100))"

section \<open>Reading a trace\<close>

text \<open>The batches passed to \<^verbatim>\<open>execute_values\<close> in a trace, in order.\<close>

fun batch_of :: "event \<Rightarrow> batch list" where
  "batch_of (EvExecute c sql b) = [b]"
| "batch_of _ = []"

definition executed_batches :: "event list \<Rightarrow> batch list" where
  "executed_batches tr = concat (map batch_of tr)"

section \<open>Scenarios\<close>

text \<open>
  Environments used to run the drivers on concrete inputs: every call returns; only
  \<^verbatim>\<open>execute_values\<close> raises; \<^verbatim>\<open>execute_values\<close> and then \<^verbatim>\<open>rollback\<close> raise, as when the
  connection is lost in the middle of a transaction; only \<^verbatim>\<open>commit\<close> raises.
\<close>

definition oc_ok :: outcomes where
  "oc_ok = (\<lambda>_. None)"

definition oc_execute_fails :: outcomes where
  "oc_execute_fails = (\<lambda>_. None)(ExecuteValues := Some DbError)"

definition oc_rollback_fails :: outcomes where
  "oc_rollback_fails = (\<lambda>_. None)(ExecuteValues := Some DbError, Rollback := Some DbError)"

definition oc_commit_fails :: outcomes where
  "oc_commit_fails = (\<lambda>_. None)(Commit := Some DbError)"

text \<open>
  A concurrent run in which the insert of the first submitted batch fails, one in which also
  the rollback of that batch fails, and one in which nothing fails; a sequential run in
  which the insert of the second batch fails.
\<close>

definition env_first_batch_fails :: driver_env where
  "env_first_batch_fails =
     \<lparr>has_tqdm = False, pool_create = None, worker_conn = (\<lambda>k. k),
      worker_outcomes = (\<lambda>k. if k = 0 then oc_execute_fails else oc_ok),
      closeall = None\<rparr>"

definition env_first_rollback_fails :: driver_env where
  "env_first_rollback_fails =
     \<lparr>has_tqdm = False, pool_create = None, worker_conn = (\<lambda>k. k),
      worker_outcomes = (\<lambda>k. if k = 0 then oc_rollback_fails else oc_ok),
      closeall = None\<rparr>"

definition env_all_ok :: driver_env where
  "env_all_ok =
     \<lparr>has_tqdm = False, pool_create = None, worker_conn = (\<lambda>k. k),
      worker_outcomes = (\<lambda>k. oc_ok), closeall = None\<rparr>"

definition env_second_batch_fails :: seq_env where
  "env_second_batch_fails =
     \<lparr>cursor_outcome = None, close_outcome = None,
      execute_outcome = (\<lambda>k. if k = 1 then Some DbError else None),
      commit_outcome = (\<lambda>k. None)\<rparr>"

section \<open>Properties of the batch sequencer\<close>

lemma generate_loop_no_error:
  "bs \<noteq> 0 \<Longrightarrow> snd (generate_loop g bs is pos batch) = None"
  by (induction "is" arbitrary: pos batch) (simp_all add: Let_def case_prod_beta)

lemma generate_loop_sizes:
  assumes "0 < bs"
  shows "int (length batch) < bs \<Longrightarrow> (i - 1) mod bs = int (length batch) \<Longrightarrow> i \<le> n + 1 \<Longrightarrow>
    map (\<lambda>b. int (length b)) (fst (generate_loop g bs [i..n] pos batch)) =
      replicate (nat ((int (length batch) + (n - i + 1)) div bs)) bs @
      (if (int (length batch) + (n - i + 1)) mod bs = 0 then []
       else [(int (length batch) + (n - i + 1)) mod bs])"
proof (induction i n arbitrary: pos batch rule: upto.induct)
  case (1 i n)
  show ?case
  proof (cases "i \<le> n")
    case False
    with 1(4) have e: "n - i + 1 = 0" by simp
    from False have u: "[i..n] = []" by simp
    show ?thesis using 1(2) assms by (simp add: u e)
  next
    case True
    then have u: "[i..n] = i # [i + 1..n]" by (rule upto_rec1)
    let ?m = "int (length batch)"
    have im: "i mod bs = (?m + 1) mod bs"
      using 1(3) by (metis diff_add_cancel mod_add_left_eq)
    show ?thesis
    proof (cases "i mod bs = 0")
      case z: True
      have m1: "?m + 1 = bs"
      proof -
        have "(?m + 1) mod bs = 0" using im z by simp
        moreover have "0 < ?m + 1" "?m + 1 \<le> bs" using 1(2) by auto
        ultimately show ?thesis
          by (metis mod_pos_pos_trivial less_le not_less zero_less_one_class.zero_le_one le_less)
      qed
      have ih: "map (\<lambda>b. int (length b)) (fst (generate_loop g bs [i + 1..n] (pos + 11) [])) =
          replicate (nat ((n - i) div bs)) bs @
          (if (n - i) mod bs = 0 then [] else [(n - i) mod bs])"
        using 1(1)[OF True, of "[]" "pos + 11"] assms z True by simp
      have t: "?m + (n - i + 1) = bs + (n - i)" using m1 by simp
      have d: "nat ((n - i) div bs + 1) = Suc (nat ((n - i) div bs))"
        using assms True by (simp add: pos_imp_zdiv_nonneg_iff Suc_nat_eq_nat_zadd1 add.commute)
      have m1': "1 + ?m = bs" using m1 by simp
      show ?thesis
        using assms z ih by (simp add: u t d m1' case_prod_beta)
    next
      case nz: False
      have lt: "?m + 1 < bs"
      proof -
        have "?m + 1 \<noteq> bs" using im nz by auto
        then show ?thesis using 1(2) by simp
      qed
      have ih: "map (\<lambda>b. int (length b))
            (fst (generate_loop g bs [i + 1..n] (pos + 11) (batch @ [gen_record g pos]))) =
          replicate (nat ((?m + 1 + (n - i)) div bs)) bs @
          (if (?m + 1 + (n - i)) mod bs = 0 then [] else [(?m + 1 + (n - i)) mod bs])"
        using 1(1)[OF True, of "batch @ [gen_record g pos]" "pos + 11"] lt True
          mod_pos_pos_trivial[of "?m + 1" bs] im
        by (simp add: algebra_simps)
      have t: "?m + (n - i + 1) = ?m + 1 + (n - i)" by simp
      show ?thesis
        using assms nz ih by (simp add: u t)
    qed
  qed
qed

lemma generate_batches_sizes:
  assumes "0 < bs" "0 \<le> n"
  shows "map (\<lambda>b. int (length b)) (fst (generate_batches g pos n bs)) =
      replicate (nat (n div bs)) bs @ (if n mod bs = 0 then [] else [n mod bs])"
  using generate_loop_sizes[OF assms(1), of "[]" 1 n g pos] assms
  by (simp add: generate_batches_def)

lemma generate_loop_nonempty:
  "[] \<notin> set (fst (generate_loop g bs is pos batch))"
  by (induction "is" arbitrary: pos batch) (simp_all add: Let_def case_prod_beta)

text \<open>
  Claim C2. For \<open>total_records > 0\<close> and \<open>batch_size > 0\<close>, \<^verbatim>\<open>generate_batches\<close> ends without
  an exception and yields exactly \<open>\<lceil>total_records / batch_size\<rceil>\<close> batches whose sizes sum to
  \<open>total_records\<close>; every batch but the last has \<open>batch_size\<close> records, and the last has
  \<open>total_records mod batch_size\<close> records if that is not zero, \<open>batch_size\<close> otherwise.
\<close>

theorem generate_batches_partition:
  assumes "0 < total_records" and "0 < batch_size"
  shows "snd (generate_batches g pos total_records batch_size) = None
    \<and> int (length (fst (generate_batches g pos total_records batch_size))) =
        \<lceil>real_of_int total_records / real_of_int batch_size\<rceil>
    \<and> (\<Sum>b\<leftarrow>fst (generate_batches g pos total_records batch_size). int (length b)) =
        total_records
    \<and> (\<forall>b \<in> set (butlast (fst (generate_batches g pos total_records batch_size))).
          int (length b) = batch_size)
    \<and> int (length (last (fst (generate_batches g pos total_records batch_size)))) =
        (if total_records mod batch_size \<noteq> 0 then total_records mod batch_size
         else batch_size)"
proof -
  let ?ys = "fst (generate_batches g pos total_records batch_size)"
  let ?q = "total_records div batch_size" and ?r = "total_records mod batch_size"
  have sz: "map (\<lambda>b. int (length b)) ?ys =
      replicate (nat ?q) batch_size @ (if ?r = 0 then [] else [?r])"
    using assms by (simp add: generate_batches_sizes)
  have q0: "0 \<le> ?q" using assms by (simp add: pos_imp_zdiv_nonneg_iff)
  have r0: "0 \<le> ?r" "?r < batch_size" using assms by simp_all
  have qpos: "?r = 0 \<Longrightarrow> 0 < ?q"
  proof -
    assume "?r = 0"
    then have "total_records = batch_size * ?q" by (metis add.right_neutral mult_div_mod_eq)
    with assms q0 show "0 < ?q" by (metis less_le mult_zero_right)
  qed
  have ne: "?ys \<noteq> []"
  proof
    assume "?ys = []"
    with sz have "replicate (nat ?q) batch_size @ (if ?r = 0 then [] else [?r]) = []" by simp
    then show False using qpos by (auto split: if_splits)
  qed
  have c1: "snd (generate_batches g pos total_records batch_size) = None"
    using assms by (simp add: generate_batches_def generate_loop_no_error)
  have "int (length ?ys) = int (length (map (\<lambda>b. int (length b)) ?ys))" by simp
  also have "\<dots> = ?q + (if ?r = 0 then 0 else 1)" using q0 by (simp add: sz)
  also have "\<dots> = - (- total_records div batch_size)"
    using assms by (simp add: zdiv_zminus1_eq_if)
  finally have c2: "int (length ?ys) = \<lceil>real_of_int total_records / real_of_int batch_size\<rceil>"
    by (simp add: ceiling_divide_eq_div)
  have c3: "(\<Sum>b\<leftarrow>?ys. int (length b)) = total_records"
    using q0 div_mult_mod_eq[of total_records batch_size]
    by (cases "?r = 0") (simp_all add: sz sum_list_replicate)
  have bl: "map (\<lambda>b. int (length b)) (butlast ?ys) =
      butlast (replicate (nat ?q) batch_size @ (if ?r = 0 then [] else [?r]))"
    using sz by (simp add: map_butlast)
  have "set (map (\<lambda>b. int (length b)) (butlast ?ys)) \<subseteq> {batch_size}"
    unfolding bl by (auto simp: butlast_append dest: in_set_butlastD)
  then have c4: "\<forall>b \<in> set (butlast ?ys). int (length b) = batch_size" by auto
  have "int (length (last ?ys)) = last (map (\<lambda>b. int (length b)) ?ys)"
    using ne by (simp add: last_map)
  also have "\<dots> = (if ?r \<noteq> 0 then ?r else batch_size)"
    using qpos by (auto simp: sz)
  finally have c5: "int (length (last ?ys)) = (if ?r \<noteq> 0 then ?r else batch_size)" .
  from c1 c2 c3 c4 c5 show ?thesis by blast
qed

text \<open>The example of the specification: 25000 records in batches of 10000.\<close>

theorem generate_batches_partition_witness:
  "(0::int) < 25000 \<and> (0::int) < 10000
   \<and> snd (generate_batches (\<lambda>_. 0) 0 25000 10000) = None
   \<and> map (\<lambda>b. int (length b)) (fst (generate_batches (\<lambda>_. 0) 0 25000 10000)) =
       [10000, 10000, 5000]"
proof -
  let ?ys = "fst (generate_batches (\<lambda>_. 0) 0 25000 10000)"
  note t = generate_batches_partition[where total_records = 25000 and batch_size = 10000
      and g = "\<lambda>_. 0" and pos = 0]
  have "length ?ys = 3" using t by simp
  then have "\<exists>a b c. ?ys = [a, b, c]"
    by (auto simp: numeral_3_eq_3 length_Suc_conv)
  then obtain a b c where ys: "?ys = [a, b, c]" by blast
  have "int (length a) = 10000 \<and> int (length b) = 10000 \<and> int (length c) = 5000"
    using t unfolding ys by simp
  moreover have "snd (generate_batches (\<lambda>_. 0) 0 25000 10000) = None" using t by simp
  ultimately show ?thesis unfolding ys by simp
qed

text \<open>
  Claim C10. For \<open>num_records \<le> 0\<close> the generator yields no batch and raises nothing (whatever
  the batch size, zero included, since the loop body never runs); and for every
  \<open>num_records\<close> and every \<open>batch_size > 0\<close> it ends without an exception and every batch it yields
  is non-empty.
\<close>

theorem generate_batches_empty_and_nonempty:
  "(num_records \<le> 0 \<longrightarrow> generate_batches g pos num_records batch_size = ([], None))
   \<and> (0 < batch_size \<longrightarrow>
        snd (generate_batches g pos num_records batch_size) = None
        \<and> (\<forall>b \<in> set (fst (generate_batches g pos num_records batch_size)). b \<noteq> []))"
proof -
  have "num_records \<le> 0 \<Longrightarrow> [1..num_records] = []" by simp
  then have a: "num_records \<le> 0 \<longrightarrow> generate_batches g pos num_records batch_size = ([], None)"
    by (simp add: generate_batches_def)
  have b: "\<forall>b \<in> set (fst (generate_batches g pos num_records batch_size)). b \<noteq> []"
    using generate_loop_nonempty[of g batch_size "[1..num_records]" pos "[]"]
    by (auto simp: generate_batches_def)
  have c: "0 < batch_size \<longrightarrow> snd (generate_batches g pos num_records batch_size) = None"
    by (simp add: generate_batches_def generate_loop_no_error)
  from a b c show ?thesis by blast
qed

theorem generate_batches_empty_and_nonempty_witness:
  "(-3::int) \<le> 0 \<and> generate_batches (\<lambda>_. 0) 0 (-3) 0 = ([], None)
   \<and> (0::int) < 2 \<and> snd (generate_batches (\<lambda>_. 0) 0 3 2) = None
   \<and> [] \<notin> set (fst (generate_batches (\<lambda>_. 0) 0 3 2))"
  using generate_batches_empty_and_nonempty[where num_records = "-3" and g = "\<lambda>_. 0" and pos = 0 and batch_size = 0]
    generate_batches_empty_and_nonempty[where num_records = 3 and g = "\<lambda>_. 0" and pos = 0 and batch_size = 2]
  by auto

section \<open>Properties of the batch inserter of the concurrent path\<close>

text \<open>
  Claim C3. Whenever \<^verbatim>\<open>insert_batch_pool\<close> has acquired a connection, its last call is
  \<^verbatim>\<open>putconn\<close> of that connection, made exactly once, whether the insert succeeded or failed;
  when a call of the insert (cursor creation, \<^verbatim>\<open>execute_values\<close>, cursor close or \<^verbatim>\<open>commit\<close>)
  raised, the error is printed and \<^verbatim>\<open>rollback\<close> is called on that connection immediately
  before \<^verbatim>\<open>putconn\<close>; when none raised, no rollback is issued.
\<close>

theorem insert_batch_pool_releases:
  assumes "oc GetConn = None"
  shows "(\<exists>pre. fst (insert_batch_pool oc c table_name batch) = pre @ [EvPutConn c]
            \<and> EvPutConn c \<notin> set pre)
       \<and> (insert_fails oc \<longrightarrow>
            (\<exists>pre e. fst (insert_batch_pool oc c table_name batch) =
                pre @ [EvPrint table_name e, EvRollback c, EvPutConn c]))
       \<and> (\<not> insert_fails oc \<longrightarrow>
            EvRollback c \<notin> set (fst (insert_batch_pool oc c table_name batch)))"
  using assms
  by (auto simp: insert_batch_pool_def with_cursor_def insert_fails_def Let_def
      split: option.splits)

theorem insert_batch_pool_releases_witness:
  "oc_execute_fails GetConn = None \<and> insert_fails oc_execute_fails
   \<and> fst (insert_batch_pool oc_execute_fails 7 ''transactions_1'' [(5, ''abcdefghij'')]) =
       [EvGetConn, EvCursor 7,
        EvExecute 7 (insert_sql ''transactions_1'') [(5, ''abcdefghij'')],
        EvCursorClose 7, EvPrint ''transactions_1'' DbError, EvRollback 7, EvPutConn 7]"
  using insert_batch_pool_releases[where oc = oc_execute_fails and c = 7
      and table_name = "''transactions_1''" and batch = "[(5, ''abcdefghij'')]"]
  by (simp add: oc_execute_fails_def insert_fails_def insert_batch_pool_def with_cursor_def)

text \<open>
  Claim C8 as stated fails: when \<^verbatim>\<open>execute_values\<close> raises and the \<^verbatim>\<open>rollback\<close> of the handler
  raises as well, the second exception leaves \<^verbatim>\<open>insert_batch_pool\<close> (after \<^verbatim>\<open>putconn\<close>).
\<close>

theorem insert_batch_pool_propagates_counterexample:
  "insert_batch_pool oc_rollback_fails 7 ''transactions_1'' [(5, ''abcdefghij'')] =
     ([EvGetConn, EvCursor 7,
       EvExecute 7 (insert_sql ''transactions_1'') [(5, ''abcdefghij'')],
       EvCursorClose 7, EvPrint ''transactions_1'' DbError, EvRollback 7, EvPutConn 7],
      Some DbError)"
  by (simp add: oc_rollback_fails_def insert_batch_pool_def with_cursor_def)

text \<open>
  Claim C8, amended. When the \<^verbatim>\<open>rollback\<close> and \<^verbatim>\<open>putconn\<close> calls do not raise,
  \<^verbatim>\<open>insert_batch_pool\<close> returns normally whatever else raises: an exception of \<^verbatim>\<open>getconn\<close> is
  caught and printed (there is no connection to roll back or to return), and an exception
  of cursor creation, \<^verbatim>\<open>execute_values\<close>, cursor close or \<^verbatim>\<open>commit\<close> is caught and printed,
  the connection is rolled back and then returned to the pool.
\<close>

theorem insert_batch_pool_returns:
  assumes "oc Rollback = None" and "oc PutConn = None"
  shows "snd (insert_batch_pool oc c table_name batch) = None
       \<and> (oc GetConn \<noteq> None \<longrightarrow>
            (\<exists>e. fst (insert_batch_pool oc c table_name batch) = [EvGetConn, EvPrint table_name e]))
       \<and> (oc GetConn = None \<and> insert_fails oc \<longrightarrow>
            (\<exists>pre e. fst (insert_batch_pool oc c table_name batch) =
                pre @ [EvPrint table_name e, EvRollback c, EvPutConn c]))"
  using assms
  by (auto simp: insert_batch_pool_def with_cursor_def insert_fails_def Let_def
      split: option.splits)

theorem insert_batch_pool_returns_witness:
  "oc_commit_fails Rollback = None \<and> oc_commit_fails PutConn = None
   \<and> oc_commit_fails GetConn = None \<and> insert_fails oc_commit_fails
   \<and> insert_batch_pool oc_commit_fails 7 ''transactions_1'' [(5, ''abcdefghij'')] =
     ([EvGetConn, EvCursor 7,
       EvExecute 7 (insert_sql ''transactions_1'') [(5, ''abcdefghij'')],
       EvCursorClose 7, EvCommit 7, EvPrint ''transactions_1'' DbError, EvRollback 7,
       EvPutConn 7], None)"
  using insert_batch_pool_returns[where oc = oc_commit_fails and c = 7
      and table_name = "''transactions_1''" and batch = "[(5, ''abcdefghij'')]"]
  by (simp add: oc_commit_fails_def insert_fails_def insert_batch_pool_def with_cursor_def)

section \<open>Properties of the concurrent load driver\<close>

lemma generate_batches_2_1:
  "generate_batches g 0 2 1 = ([[gen_record g 0], [gen_record g 11]], None)"
  by (simp add: generate_batches_def upto.simps)

text \<open>
  What leaves \<^verbatim>\<open>insert_batch_pool\<close> depends on \<^verbatim>\<open>rollback\<close> and \<^verbatim>\<open>putconn\<close> alone. So with
  a non-zero batch size, a pool, at least one worker and no exception from \<^verbatim>\<open>rollback\<close>,
  \<^verbatim>\<open>putconn\<close> or \<^verbatim>\<open>closeall\<close>, the concurrent driver returns normally, however many inserts
  fail.
\<close>

lemma insert_batch_pool_result:
  "snd (insert_batch_pool oc c table_name batch) =
     (case oc GetConn of
        Some e \<Rightarrow> None
      | None \<Rightarrow>
          (case oc PutConn of
             Some e \<Rightarrow> Some e
           | None \<Rightarrow> if insert_fails oc then oc Rollback else None))"
  by (auto simp: insert_batch_pool_def with_cursor_def insert_fails_def Let_def
      split: option.splits)

lemma run_workers_no_error:
  assumes "\<forall>k. worker_outcomes env k Rollback = None \<and> worker_outcomes env k PutConn = None"
  shows "first_error (map snd (run_workers env table_name k bs)) = None"
  using assms
  by (induction bs arbitrary: k) (simp_all add: insert_batch_pool_result split: option.splits)

lemma concurrent_returns_despite_failures:
  assumes "batch_size \<noteq> 0" and "pool_create env = None" and "0 < num_workers"
    and "closeall env = None"
    and "\<forall>k. worker_outcomes env k Rollback = None \<and> worker_outcomes env k PutConn = None"
  shows "snd (insert_records_concurrent env g pos table_name num_records batch_size
            num_workers) = None"
proof -
  obtain batches gen_err where gb:
    "generate_batches g pos num_records batch_size = (batches, gen_err)"
    by (cases "generate_batches g pos num_records batch_size")
  have "gen_err = None"
    using generate_loop_no_error[OF assms(1), of g "[1..num_records]" pos "[]"] gb
    by (simp add: generate_batches_def)
  then show ?thesis
    using assms run_workers_no_error[OF assms(5), of table_name 0 batches]
    by (simp add: insert_records_concurrent_def gb)
qed

text \<open>
  Claim C1 does not hold of the code. Two records in batches of one, two workers, and the
  \<^verbatim>\<open>execute_values\<close> of the first batch raises: the worker prints the error, rolls back and
  returns normally, so its future holds no exception, \<^verbatim>\<open>future.result()\<close> raises nothing and
  the driver returns normally, as it does when every batch succeeds.
\<close>

theorem concurrent_failure_not_reported:
  "insert_records_concurrent env_first_batch_fails (\<lambda>_. 0) 0 ''transactions_1'' 2 1 2 =
     ([EvPoolCreate 1 2,
       EvGetConn, EvCursor 0,
       EvExecute 0 (insert_sql ''transactions_1'') [gen_record (\<lambda>_. 0) 0],
       EvCursorClose 0, EvPrint ''transactions_1'' DbError, EvRollback 0, EvPutConn 0,
       EvGetConn, EvCursor 1,
       EvExecute 1 (insert_sql ''transactions_1'') [gen_record (\<lambda>_. 0) 11],
       EvCursorClose 1, EvCommit 1, EvPutConn 1,
       EvCloseAll], None)"
  by (simp add: insert_records_concurrent_def generate_batches_2_1 env_first_batch_fails_def
      insert_batch_pool_def with_cursor_def oc_execute_fails_def oc_ok_def)

lemma insert_batch_pool_events:
  "ev \<in> set (fst (insert_batch_pool oc c table_name batch)) \<Longrightarrow>
     ev \<noteq> EvCloseAll \<and> (\<forall>lo hi. ev \<noteq> EvPoolCreate lo hi)"
  by (auto simp: insert_batch_pool_def with_cursor_def Let_def split: option.splits)

lemma run_workers_events:
  "ev \<in> set (concat (map fst (run_workers env table_name k bs))) \<Longrightarrow>
     ev \<noteq> EvCloseAll \<and> (\<forall>lo hi. ev \<noteq> EvPoolCreate lo hi)"
proof (induction bs arbitrary: k)
  case Nil
  then show ?case by simp
next
  case (Cons b bs)
  then show ?case using insert_batch_pool_events by fastforce
qed

text \<open>
  Claim C6 as stated fails: \<^verbatim>\<open>closeall\<close> is the last statement of the driver and stands in no
  \<^verbatim>\<open>finally\<close> clause. When \<^verbatim>\<open>execute_values\<close> and then \<^verbatim>\<open>rollback\<close> raise in the first worker,
  both batches are attempted, \<^verbatim>\<open>future.result()\<close> raises the stored exception again, the
  driver leaves by it and the pool is never closed: its connections outlive the job.
\<close>

theorem concurrent_pool_not_closed_counterexample:
  "insert_records_concurrent env_first_rollback_fails (\<lambda>_. 0) 0 ''transactions_1'' 2 1 2 =
     ([EvPoolCreate 1 2,
       EvGetConn, EvCursor 0,
       EvExecute 0 (insert_sql ''transactions_1'') [gen_record (\<lambda>_. 0) 0],
       EvCursorClose 0, EvPrint ''transactions_1'' DbError, EvRollback 0, EvPutConn 0,
       EvGetConn, EvCursor 1,
       EvExecute 1 (insert_sql ''transactions_1'') [gen_record (\<lambda>_. 0) 11],
       EvCursorClose 1, EvCommit 1, EvPutConn 1], Some DbError)
   \<and> EvCloseAll \<notin> set (fst (insert_records_concurrent env_first_rollback_fails (\<lambda>_. 0) 0
          ''transactions_1'' 2 1 2))"
  by (simp add: insert_records_concurrent_def generate_batches_2_1 env_first_rollback_fails_def
      insert_batch_pool_def with_cursor_def oc_rollback_fails_def oc_ok_def)

text \<open>
  Claim C6, amended. The only pool the concurrent driver constructs has minimum 1 and
  maximum \<open>num_workers\<close>; and when the load job returns normally, its trace is the pool
  construction, the calls of the workers, and \<^verbatim>\<open>closeall\<close> as the last call, made once: no
  call on a connection follows it, and no connection outlives a job that returns normally.
\<close>

theorem concurrent_pool_lifecycle:
  "(\<forall>lo hi. EvPoolCreate lo hi \<in>
        set (fst (insert_records_concurrent env g pos table_name num_records batch_size
          num_workers)) \<longrightarrow> lo = 1 \<and> hi = num_workers)
   \<and> (snd (insert_records_concurrent env g pos table_name num_records batch_size
          num_workers) = None \<longrightarrow>
        (\<exists>mid. fst (insert_records_concurrent env g pos table_name num_records batch_size
            num_workers) = EvPoolCreate 1 num_workers # mid @ [EvCloseAll]
          \<and> EvCloseAll \<notin> set mid \<and> (\<forall>lo hi. EvPoolCreate lo hi \<notin> set mid)))"
proof -
  obtain batches gen_err where gb:
    "generate_batches g pos num_records batch_size = (batches, gen_err)"
    by (cases "generate_batches g pos num_records batch_size")
  let ?mid = "concat (map fst (run_workers env table_name 0 batches))"
  have mid: "EvCloseAll \<notin> set ?mid" "\<And>lo hi. EvPoolCreate lo hi \<notin> set ?mid"
    using run_workers_events[of _ env table_name 0 batches] by blast+
  show ?thesis
    using mid
    by (auto simp: insert_records_concurrent_def gb Let_def split: option.splits if_splits)
qed

theorem concurrent_pool_lifecycle_witness:
  "insert_records_concurrent env_all_ok (\<lambda>_. 0) 0 ''transactions_1'' 2 1 2 =
     ([EvPoolCreate 1 2,
       EvGetConn, EvCursor 0,
       EvExecute 0 (insert_sql ''transactions_1'') [gen_record (\<lambda>_. 0) 0],
       EvCursorClose 0, EvCommit 0, EvPutConn 0,
       EvGetConn, EvCursor 1,
       EvExecute 1 (insert_sql ''transactions_1'') [gen_record (\<lambda>_. 0) 11],
       EvCursorClose 1, EvCommit 1, EvPutConn 1,
       EvCloseAll], None)"
  using concurrent_pool_lifecycle[where env = env_all_ok and g = "\<lambda>_. 0" and pos = 0
      and table_name = "''transactions_1''" and num_records = 2 and batch_size = 1
      and num_workers = 2]
  by (simp add: insert_records_concurrent_def generate_batches_2_1 env_all_ok_def
      insert_batch_pool_def with_cursor_def oc_ok_def)

section \<open>Properties of the sequential load driver\<close>

lemma executed_batches_append [simp]:
  "executed_batches (xs @ ys) = executed_batches xs @ executed_batches ys"
  by (simp add: executed_batches_def)

lemma executed_batches_insert_batch [simp]:
  "executed_batches (fst (insert_batch env c sql k records)) = [records]"
  by (simp add: insert_batch_def executed_batches_def split: option.splits)

lemma insert_batch_ok:
  "snd (insert_batch env c sql k records) = None \<longleftrightarrow>
     execute_outcome env k = None \<and> commit_outcome env k = None"
  by (simp add: insert_batch_def split: option.splits)

lemma insert_loop_fail_fast:
  "insert_loop env g c sql bs is pos k recs = (tr, pos', r) \<Longrightarrow>
   k \<le> j \<Longrightarrow> j < k + length (executed_batches tr) \<Longrightarrow>
   execute_outcome env j \<noteq> None \<or> commit_outcome env j \<noteq> None \<Longrightarrow>
   r \<noteq> None \<and> k + length (executed_batches tr) = Suc j
   \<and> pos' + 11 * length recs = pos + 11 * length (concat (executed_batches tr))"
proof (induction "is" arbitrary: pos k recs tr pos' r)
  case Nil
  show ?case
  proof (cases "recs = []")
    case True
    with Nil show ?thesis by (simp add: executed_batches_def)
  next
    case False
    obtain ev e where ib: "insert_batch env c sql k recs = (ev, e)"
      by (cases "insert_batch env c sql k recs")
    from Nil(1) False ib have tr: "tr = ev" "pos' = pos" "r = e" by simp_all
    have ex: "executed_batches ev = [recs]"
      using executed_batches_insert_batch[of env c sql k recs] ib by simp
    from Nil(2,3) have jk: "j = k" by (simp add: tr ex)
    have "e \<noteq> None" using insert_batch_ok[of env c sql k recs] ib Nil(4) jk by auto
    then show ?thesis by (simp add: tr ex jk)
  qed
next
  case (Cons i "is")
  let ?recs' = "recs @ [gen_record g pos]"
  show ?case
  proof (cases "bs = 0")
    case True
    with Cons.prems show ?thesis by (simp add: executed_batches_def)
  next
    case nz: False
    show ?thesis
    proof (cases "i mod bs = 0")
      case False
      with nz Cons.prems(1)
      have "insert_loop env g c sql bs is (pos + 11) k ?recs' = (tr, pos', r)" by simp
      from Cons.IH[OF this Cons.prems(2,3,4)] show ?thesis by simp
    next
      case True
      obtain ev e where ib: "insert_batch env c sql k ?recs' = (ev, e)"
        by (cases "insert_batch env c sql k ?recs'")
      have ex: "executed_batches ev = [?recs']"
        using executed_batches_insert_batch[of env c sql k ?recs'] ib by simp
      show ?thesis
      proof (cases e)
        case (Some err)
        with nz True ib Cons.prems(1) have tr: "tr = ev" "pos' = pos + 11" "r = Some err"
          by simp_all
        from Cons.prems(2,3) have "j = k" by (simp add: tr ex)
        then show ?thesis by (simp add: tr ex)
      next
        case None
        obtain ev' p' r' where rest:
          "insert_loop env g c sql bs is (pos + 11) (Suc k) [] = (ev', p', r')"
          by (cases "insert_loop env g c sql bs is (pos + 11) (Suc k) []")
        from nz True ib None rest Cons.prems(1)
        have tr: "tr = ev @ ev'" "pos' = p'" "r = r'" by simp_all
        have "j \<noteq> k" using insert_batch_ok[of env c sql k ?recs'] ib None Cons.prems(4) by auto
        with Cons.prems(2) have j1: "Suc k \<le> j" by simp
        from Cons.prems(3) have j2: "j < Suc k + length (executed_batches ev')"
          by (simp add: tr ex)
        from Cons.IH[OF rest j1 j2 Cons.prems(4)] show ?thesis by (simp add: tr ex)
      qed
    qed
  qed
qed

text \<open>
  Claim C4. In \<^verbatim>\<open>insert_records\<close>, when the insert of the \<open>j\<close>-th batch attempted (its
  \<^verbatim>\<open>execute_values\<close> or its \<^verbatim>\<open>commit\<close>) raises, the function raises, that batch is the last one
  attempted, and the random generator has advanced by exactly the eleven draws of each
  record of the attempted batches: no record after the failing batch is generated.
\<close>

theorem insert_records_fail_fast:
  assumes "j < length (executed_batches
              (fst (insert_records env g pos c table_name num_records batch_size)))"
    and "execute_outcome env j \<noteq> None \<or> commit_outcome env j \<noteq> None"
  shows "snd (snd (insert_records env g pos c table_name num_records batch_size)) \<noteq> None
    \<and> length (executed_batches
          (fst (insert_records env g pos c table_name num_records batch_size))) = Suc j
    \<and> fst (snd (insert_records env g pos c table_name num_records batch_size)) =
        pos + 11 * length (concat (executed_batches
          (fst (insert_records env g pos c table_name num_records batch_size))))"
proof (cases "cursor_outcome env")
  case (Some e)
  with assms(1) show ?thesis by (simp add: insert_records_def executed_batches_def)
next
  case None
  obtain ev p r where loop:
    "insert_loop env g c (insert_sql table_name) batch_size [1..num_records] pos 0 [] = (ev, p, r)"
    by (cases "insert_loop env g c (insert_sql table_name) batch_size [1..num_records] pos 0 []")
  have res: "insert_records env g pos c table_name num_records batch_size =
      (EvCursor c # ev @ [EvCursorClose c], p,
       case close_outcome env of Some e \<Rightarrow> Some e | None \<Rightarrow> r)"
    by (simp add: insert_records_def None loop)
  have ex: "executed_batches (EvCursor c # ev @ [EvCursorClose c]) = executed_batches ev"
    by (simp add: executed_batches_def)
  from assms(1) have j: "j < 0 + length (executed_batches ev)" by (simp add: res ex)
  from insert_loop_fail_fast[OF loop _ j assms(2)]
  have "r \<noteq> None" "length (executed_batches ev) = Suc j"
    "p = pos + 11 * length (concat (executed_batches ev))" by simp_all
  then show ?thesis by (auto simp: res ex split: option.splits)
qed

theorem insert_records_fail_fast_witness:
  "insert_records env_second_batch_fails (\<lambda>_. 0) 0 7 ''transactions_1'' 5 2 =
     ([EvCursor 7,
       EvExecute 7 (insert_sql ''transactions_1'') [gen_record (\<lambda>_. 0) 0, gen_record (\<lambda>_. 0) 11],
       EvCommit 7,
       EvExecute 7 (insert_sql ''transactions_1'') [gen_record (\<lambda>_. 0) 22, gen_record (\<lambda>_. 0) 33],
       EvCursorClose 7], 44, Some DbError)
   \<and> execute_outcome env_second_batch_fails 1 \<noteq> None"
  using insert_records_fail_fast[where env = env_second_batch_fails and g = "\<lambda>_. 0" and pos = 0
      and c = 7 and table_name = "''transactions_1''" and num_records = 5 and batch_size = 2
      and j = 1]
  by (simp add: insert_records_def insert_batch_def env_second_batch_fails_def upto.simps)

section \<open>Properties of floating-point rounding\<close>

text \<open>
  The exponent brackets its argument, and rounding is monotone against every float
  \<open>m \<cdot> 2\<^sup>j\<close> with \<open>m < 2\<^sup>5\<^sup>3\<close>: a bound that is a float survives the rounding.
\<close>

lemma round_half_even_lower: "of_int a \<le> x \<Longrightarrow> a \<le> round_half_even x"
proof -
  assume "of_int a \<le> x"
  then have "a \<le> \<lfloor>x\<rfloor>" by (simp add: le_floor_iff)
  then show ?thesis by (simp add: round_half_even_def Let_def)
qed

lemma round_half_even_below_half:
  assumes "x < of_int b + 1 / 2"
  shows "round_half_even x \<le> b"
proof -
  have fb: "\<lfloor>x\<rfloor> \<le> b" using assms by (simp add: floor_le_iff)
  show ?thesis
  proof (cases "x - of_int \<lfloor>x\<rfloor> < 1 / 2")
    case True
    then show ?thesis using fb by (simp add: round_half_even_def Let_def)
  next
    case False
    then have "of_int \<lfloor>x\<rfloor> + 1 / 2 \<le> x" by linarith
    with assms have "of_int \<lfloor>x\<rfloor> < (of_int b :: rat)" by linarith
    then have "\<lfloor>x\<rfloor> < b" by (simp only: of_int_less_iff)
    then show ?thesis by (simp add: round_half_even_def Let_def)
  qed
qed

lemma round_half_even_upper: "x \<le> of_int b \<Longrightarrow> round_half_even x \<le> b"
  by (rule round_half_even_below_half) simp

lemma pow2_nat: "0 \<le> k \<Longrightarrow> (2::rat) ^ nat k = power_int 2 k"
  by (simp add: power_int_def)

lemma ilog2_bounds:
  assumes "0 < x"
  shows "power_int 2 (ilog2 x) \<le> x" and "x < power_int 2 (ilog2 x + 1)"
proof -
  obtain p q where pq: "quotient_of x = (p, q)" by (cases "quotient_of x")
  have q: "0 < q" using quotient_of_denom_pos[OF pq] .
  have x: "x = of_int p / of_int q" using quotient_of_div[OF pq] .
  have p: "0 < p" using assms q by (simp add: x zero_less_divide_iff)
  let ?bp = "bitlen p" and ?bq = "bitlen q"
  have bp1: "1 \<le> ?bp" using p bitlen_eq_zero_iff[of p] bitlen_nonneg[of p] by linarith
  have bq1: "1 \<le> ?bq" using q bitlen_eq_zero_iff[of q] bitlen_nonneg[of q] by linarith
  from bitlen_bounds[OF p] have "(of_int (2 ^ nat (?bp - 1)) :: rat) \<le> of_int p"
    "(of_int p :: rat) < of_int (2 ^ nat ?bp)" by (simp_all only: of_int_le_iff of_int_less_iff)
  then have P: "power_int 2 (?bp - 1) \<le> (of_int p :: rat)" "(of_int p :: rat) < power_int 2 ?bp"
    using bp1 by (simp_all add: pow2_nat)
  from bitlen_bounds[OF q] have "(of_int (2 ^ nat (?bq - 1)) :: rat) \<le> of_int q"
    "(of_int q :: rat) < of_int (2 ^ nat ?bq)" by (simp_all only: of_int_le_iff of_int_less_iff)
  then have Q: "power_int 2 (?bq - 1) \<le> (of_int q :: rat)" "(of_int q :: rat) < power_int 2 ?bq"
    using bq1 by (simp_all add: pow2_nat)
  have qpos: "(0::rat) < of_int q" using q by simp
  have up: "x < power_int 2 (?bp - ?bq + 1)"
  proof -
    have "x * power_int 2 (?bq - 1) \<le> x * of_int q"
      using Q(1) assms by (intro mult_left_mono) simp_all
    also have "\<dots> = of_int p" using qpos by (simp add: x)
    also have "\<dots> < power_int 2 ?bp" by (rule P(2))
    finally have "x < power_int 2 ?bp / power_int 2 (?bq - 1)"
      by (simp add: pos_less_divide_eq)
    also have "\<dots> = power_int 2 (?bp - (?bq - 1))" by (simp add: power_int_diff)
    finally show ?thesis by (simp add: algebra_simps)
  qed
  have lo: "power_int 2 (?bp - ?bq - 1) < x"
  proof -
    have "power_int 2 (?bp - 1) \<le> (of_int p :: rat)" by (rule P(1))
    also have "\<dots> = x * of_int q" using qpos by (simp add: x)
    also have "\<dots> < x * power_int 2 ?bq" using Q(2) assms by (intro mult_strict_left_mono)
    finally have "power_int 2 (?bp - 1) / power_int 2 ?bq < x"
      by (simp add: pos_divide_less_eq)
    moreover have "power_int 2 (?bp - 1) / power_int 2 ?bq = (power_int 2 (?bp - 1 - ?bq) :: rat)"
      by (simp add: power_int_diff)
    ultimately show ?thesis by (simp add: algebra_simps)
  qed
  show "power_int 2 (ilog2 x) \<le> x"
    using lo by (auto simp: ilog2_def pq Let_def intro: less_imp_le)
  show "x < power_int 2 (ilog2 x + 1)"
    using up by (auto simp: ilog2_def pq Let_def)
qed

lemma pow2_exp_less:
  assumes "power_int (2::rat) a < power_int 2 b"
  shows "a < b"
proof (rule ccontr)
  assume "\<not> a < b"
  then have "b \<le> a" by simp
  then have "power_int (2::rat) b \<le> power_int 2 a" by (intro power_int_increasing) simp_all
  with assms show False by simp
qed

lemma fl_pos:
  "0 < x \<Longrightarrow> fl x = of_int (round_half_even (x / power_int 2 (ilog2 x - 52)))
      * power_int 2 (ilog2 x - 52)"
  by (simp add: fl_def Let_def)

lemma fl_upper:
  assumes "0 < x" and "x \<le> of_int m * power_int 2 j" and "m < 2 ^ 53"
  shows "fl x \<le> of_int m * power_int 2 j"
proof -
  let ?e = "ilog2 x"
  let ?u = "power_int 2 (?e - 52) :: rat"
  have u: "0 < ?u" by simp
  have "power_int 2 ?e \<le> x" using ilog2_bounds(1)[OF assms(1)] .
  also have "\<dots> \<le> of_int m * power_int 2 j" by (rule assms(2))
  also have "\<dots> < of_int (2 ^ 53) * power_int 2 j"
    using assms(3) by (intro mult_strict_right_mono) (simp_all only: of_int_less_iff zero_less_power_int zero_less_numeral)
  also have "\<dots> = power_int 2 (53 + j)" by (simp add: power_int_add)
  finally have "?e < 53 + j" by (rule pow2_exp_less)
  then have d: "0 \<le> j - (?e - 52)" by simp
  have b: "of_int m * power_int 2 j = of_int (m * 2 ^ nat (j - (?e - 52))) * ?u"
    using d by (simp add: pow2_nat power_int_diff)
  have "x / ?u \<le> of_int (m * 2 ^ nat (j - (?e - 52)))"
    using assms(2) u unfolding b by (simp add: pos_divide_le_eq)
  then have "round_half_even (x / ?u) \<le> m * 2 ^ nat (j - (?e - 52))"
    by (rule round_half_even_upper)
  then have "(of_int (round_half_even (x / ?u)) :: rat) \<le> of_int (m * 2 ^ nat (j - (?e - 52)))"
    by (simp only: of_int_le_iff)
  then have "of_int (round_half_even (x / ?u)) * ?u \<le> of_int (m * 2 ^ nat (j - (?e - 52))) * ?u"
    using u by (intro mult_right_mono) simp_all
  then show ?thesis unfolding fl_pos[OF assms(1)] b .
qed

lemma fl_lower:
  assumes "0 < m" and "of_int m * power_int 2 j \<le> x" and "m < 2 ^ 53"
  shows "of_int m * power_int 2 j \<le> fl x"
proof -
  have x: "0 < x"
  proof -
    have "(0::rat) < of_int m * power_int 2 j" using assms(1) by simp
    with assms(2) show ?thesis by linarith
  qed
  let ?e = "ilog2 x"
  let ?u = "power_int 2 (?e - 52) :: rat"
  have u: "0 < ?u" by simp
  show ?thesis
  proof (cases "0 \<le> j - (?e - 52)")
    case True
    have a: "of_int m * power_int 2 j = of_int (m * 2 ^ nat (j - (?e - 52))) * ?u"
      using True by (simp add: pow2_nat power_int_diff)
    have "of_int (m * 2 ^ nat (j - (?e - 52))) \<le> x / ?u"
      using assms(2) u unfolding a by (simp add: pos_le_divide_eq)
    then have "m * 2 ^ nat (j - (?e - 52)) \<le> round_half_even (x / ?u)"
      by (rule round_half_even_lower)
    then have "(of_int (m * 2 ^ nat (j - (?e - 52))) :: rat) \<le> of_int (round_half_even (x / ?u))"
      by (simp only: of_int_le_iff)
    then have "of_int (m * 2 ^ nat (j - (?e - 52))) * ?u \<le> of_int (round_half_even (x / ?u)) * ?u"
      using u by (intro mult_right_mono) simp_all
    then show ?thesis unfolding fl_pos[OF x] a .
  next
    case False
    then have je: "53 + j \<le> ?e" by simp
    have "m \<le> 2 ^ 53" using assms(3) by (rule less_imp_le)
    then have mm: "(of_int m :: rat) \<le> of_int (2 ^ 53)" by (simp only: of_int_le_iff)
    have "(0::rat) \<le> power_int 2 j" by simp
    with mm have "of_int m * power_int 2 j \<le> of_int (2 ^ 53) * (power_int 2 j :: rat)"
      by (rule mult_right_mono)
    also have "\<dots> = power_int 2 (53 + j)" by (simp add: power_int_add)
    also have "\<dots> \<le> power_int 2 ?e" using je by (intro power_int_increasing) simp_all
    finally have a: "of_int m * power_int 2 j \<le> (power_int 2 ?e :: rat)" .
    have e: "(power_int 2 ?e :: rat) = of_int (2 ^ 52) * ?u" by (simp add: power_int_diff)
    have "of_int (2 ^ 52) \<le> x / ?u"
      using ilog2_bounds(1)[OF x] u unfolding e by (simp add: pos_le_divide_eq)
    then have "2 ^ 52 \<le> round_half_even (x / ?u)" by (rule round_half_even_lower)
    then have "(of_int (2 ^ 52) :: rat) \<le> of_int (round_half_even (x / ?u))"
      by (simp only: of_int_le_iff)
    then have "of_int (2 ^ 52) * ?u \<le> of_int (round_half_even (x / ?u)) * ?u"
      using u by (intro mult_right_mono) simp_all
    then have "power_int 2 ?e \<le> fl x" unfolding fl_pos[OF x] e .
    with a show ?thesis by linarith
  qed
qed

lemma fl_int_upper: "0 < x \<Longrightarrow> x \<le> of_int m \<Longrightarrow> m < 2 ^ 53 \<Longrightarrow> fl x \<le> of_int m"
  using fl_upper[of x m 0] by simp

lemma fl_int_lower: "0 < m \<Longrightarrow> of_int m \<le> x \<Longrightarrow> m < 2 ^ 53 \<Longrightarrow> of_int m \<le> fl x"
  using fl_lower[of m 0 x] by simp

lemma fl_nonneg: "0 \<le> x \<Longrightarrow> 0 \<le> fl x"
proof (cases "x = 0")
  case True
  then show ?thesis by (simp add: fl_def)
next
  case False
  assume "0 \<le> x"
  with False have x: "0 < x" by simp
  have "(of_int 0 :: rat) \<le> x / power_int 2 (ilog2 x - 52)" using x by simp
  then have "0 \<le> round_half_even (x / power_int 2 (ilog2 x - 52))"
    by (rule round_half_even_lower)
  then show ?thesis unfolding fl_pos[OF x] by simp
qed

lemma ilog2_eq:
  assumes "power_int 2 e \<le> x" and "x < power_int 2 (e + 1)"
  shows "ilog2 x = e"
proof -
  have x: "0 < x"
  proof -
    have "(0::rat) < power_int 2 e" by simp
    with assms(1) show ?thesis by linarith
  qed
  have "power_int (2::rat) (ilog2 x) < power_int 2 (e + 1)"
    using ilog2_bounds(1)[OF x] assms(2) by linarith
  then have a: "ilog2 x < e + 1" by (rule pow2_exp_less)
  have "power_int (2::rat) e < power_int 2 (ilog2 x + 1)"
    using ilog2_bounds(2)[OF x] assms(1) by linarith
  then have "e < ilog2 x + 1" by (rule pow2_exp_less)
  with a show ?thesis by simp
qed

text \<open>
  The rounding at work: the float \<open>0.1\<close>; a draw for which the exact sum rounds to \<open>4.03\<close>
  and the float sum to \<open>4.04\<close>; a draw for which the exact index is 7 and the float product
  is 8.
\<close>

lemma float_rounding_examples:
  "py_round2 (uniform 1 1000 (27364213952091 / 2 ^ 53)) = fl (404 / 100)"
  "nat \<lfloor>fmul (1162219258676257 / 2 ^ 53) 62\<rfloor> = 8"
  "fl (1 / 10) = 3602879701896397 / 2 ^ 55"
  by code_simp+

section \<open>Properties of the record generator\<close>

lemma alphabet_62: "length alphabet = 62" "distinct alphabet"
  by (simp_all add: alphabet_def ascii_letters_def digits_def)

lemma alphabet_alnum: "list_all is_alnum alphabet"
  by (simp add: alphabet_def ascii_letters_def digits_def is_alnum_def)

lemma random_random_range:
  "0 \<le> random_random g k" "random_random g k \<le> 1 - 1 / 2 ^ 53"
proof -
  have "unat (g k) < 2 ^ 53" using unsigned_less[of "g k"] by simp
  then have "unat (g k) + 1 \<le> 2 ^ 53" by simp
  then have "(of_nat (unat (g k) + 1) :: rat) \<le> of_nat (2 ^ 53)" by (simp only: of_nat_le_iff)
  then have u: "(of_nat (unat (g k)) :: rat) + 1 \<le> 2 ^ 53" by (simp only: of_nat_add of_nat_1 of_nat_power of_nat_numeral)
  show "0 \<le> random_random g k"
    unfolding random_random_def
    by (rule divide_nonneg_nonneg) (simp_all only: of_nat_0_le_iff zero_le_numeral zero_le_power)
  have "random_random g k + 1 / 2 ^ 53 = (of_nat (unat (g k)) + 1) / 2 ^ 53"
    unfolding random_random_def by (simp only: add_divide_distrib)
  also have "\<dots> \<le> 2 ^ 53 / 2 ^ 53" using u by (rule divide_right_mono) simp
  finally show "random_random g k \<le> 1 - 1 / 2 ^ 53" by simp
qed

text \<open>The float product \<^verbatim>\<open>random() * 62.0\<close> stays below 62.\<close>

lemma index_below_62:
  assumes "0 \<le> r" and "r \<le> 1 - 1 / 2 ^ 53"
  shows "nat \<lfloor>fmul r 62\<rfloor> < 62"
proof -
  let ?x = "r * 62"
  have fx: "fl ?x < 62"
  proof (cases "?x < 32")
    case True
    show ?thesis
    proof (cases "?x = 0")
      case True
      then show ?thesis by (simp add: fl_def)
    next
      case False
      with assms(1) have "0 < ?x" by simp
      moreover have "?x \<le> of_int 32" using True by simp
      ultimately have "fl ?x \<le> of_int 32" by (rule fl_int_upper) simp
      then show ?thesis by simp
    qed
  next
    case False
    then have lo: "power_int 2 5 \<le> ?x" by simp
    have hi: "?x \<le> 62 - 62 / 2 ^ 53" using assms(2) by simp
    then have "?x < power_int 2 (5 + 1)" by simp
    with lo have e: "ilog2 ?x = 5" by (rule ilog2_eq)
    have x: "0 < ?x" using False by simp
    let ?u = "power_int 2 (- 47) :: rat"
    have f: "fl ?x = of_int (round_half_even (?x / ?u)) * ?u"
      using fl_pos[OF x] by (simp add: e)
    have "?x / ?u = ?x * 2 ^ 47" by (simp add: power_int_minus field_simps)
    also have "\<dots> \<le> (62 - 62 / 2 ^ 53) * 2 ^ 47" using hi by (rule mult_right_mono) simp
    also have "\<dots> < of_int (62 * 2 ^ 47 - 1) + 1 / 2" by simp
    finally have "round_half_even (?x / ?u) \<le> 62 * 2 ^ 47 - 1"
      by (rule round_half_even_below_half)
    then have "(of_int (round_half_even (?x / ?u)) :: rat) \<le> of_int (62 * 2 ^ 47 - 1)"
      by (simp only: of_int_le_iff)
    then have "of_int (round_half_even (?x / ?u)) * ?u \<le> of_int (62 * 2 ^ 47 - 1) * ?u"
      by (rule mult_right_mono) simp
    also have "\<dots> < 62" by (simp add: power_int_minus)
    finally show ?thesis by (simp only: f)
  qed
  then have "\<lfloor>fl ?x\<rfloor> < 62" by (simp add: floor_less_iff)
  then have "nat \<lfloor>fl ?x\<rfloor> < nat 62" by (simp only: zless_nat_conj) simp
  then show ?thesis by (simp add: fmul_def)
qed

lemma choices_alphabet:
  "length (choices g pos alphabet k) = k"
  "set (choices g pos alphabet k) \<subseteq> set alphabet"
proof -
  show "length (choices g pos alphabet k) = k" by (simp add: choices_def)
  have "nat \<lfloor>fmul (random_random g j) (of_nat (length alphabet))\<rfloor> < length alphabet" for j
    using index_below_62[OF random_random_range, of g j] by (simp add: alphabet_62(1))
  then show "set (choices g pos alphabet k) \<subseteq> set alphabet"
    by (auto simp: choices_def)
qed

text \<open>The float sum \<^verbatim>\<open>1.0 + 999.0 * random()\<close> lies in \<open>[1, 1000]\<close>, and so does its rounding.\<close>

lemma uniform_range:
  assumes "0 \<le> r" and "r \<le> 1 - 1 / 2 ^ 53"
  shows "1 \<le> uniform 1 1000 r" and "uniform 1 1000 r \<le> 1000"
proof -
  have d: "fsub 1000 1 = 999"
  proof -
    have "fl 999 \<le> of_int 999" by (rule fl_int_upper) simp_all
    moreover have "of_int 999 \<le> fl 999" by (rule fl_int_lower) simp_all
    ultimately show ?thesis by (simp add: fsub_def)
  qed
  let ?p = "fl (999 * r)"
  have p0: "0 \<le> ?p" using assms(1) by (intro fl_nonneg) simp
  have p1: "?p \<le> 999"
  proof (cases "r = 0")
    case True
    then show ?thesis by (simp add: fl_def)
  next
    case False
    with assms(1) have "0 < 999 * r" by simp
    moreover have "999 * r \<le> of_int 999" using assms(2) by simp
    ultimately have "fl (999 * r) \<le> of_int 999" by (rule fl_int_upper) simp
    then show ?thesis by simp
  qed
  have u: "uniform 1 1000 r = fl (1 + ?p)" by (simp add: uniform_def fadd_def fmul_def d)
  have "of_int 1 \<le> fl (1 + ?p)" using p0 by (intro fl_int_lower) simp_all
  then show "1 \<le> uniform 1 1000 r" by (simp add: u)
  have "fl (1 + ?p) \<le> of_int 1000" using p0 p1 by (intro fl_int_upper) simp_all
  then show "uniform 1 1000 r \<le> 1000" by (simp add: u)
qed

lemma py_round2_range:
  assumes "1 \<le> x" and "x \<le> 1000"
  shows "1 \<le> py_round2 x" and "py_round2 x \<le> 1000"
proof -
  let ?k = "round_half_even (x * 100)"
  have "of_int 100 \<le> x * 100" using assms(1) by simp
  then have lo: "100 \<le> ?k" by (rule round_half_even_lower)
  have "x * 100 \<le> of_int 100000" using assms(2) by simp
  then have hi: "?k \<le> 100000" by (rule round_half_even_upper)
  have "(of_int 100 :: rat) \<le> of_int ?k" "(of_int ?k :: rat) \<le> of_int 100000"
    using lo hi by (simp_all only: of_int_le_iff)
  then have k: "of_int 1 \<le> (of_int ?k :: rat) / 100" "(of_int ?k :: rat) / 100 \<le> of_int 1000"
    by simp_all
  have "of_int 1 \<le> fl (of_int ?k / 100)" using k(1) by (intro fl_int_lower) simp_all
  then show "1 \<le> py_round2 x" by (simp add: py_round2_def)
  have "0 < (of_int ?k :: rat) / 100" using k(1) by simp
  then have "fl (of_int ?k / 100) \<le> of_int 1000" using k(2) by (rule fl_int_upper) simp
  then show "py_round2 x \<le> 1000" by (simp add: py_round2_def)
qed

lemma gen_record_well_formed: "well_formed_record (gen_record g pos)"
proof -
  have "list_all is_alnum (choices g (pos + 1) alphabet 10)"
    using choices_alphabet(2)[of g "pos + 1" 10] alphabet_alnum by (auto simp: list_all_iff)
  moreover have "\<exists>k::int. py_round2 (uniform 1 1000 (random_random g pos)) = fl (of_int k / 100)"
    by (auto simp: py_round2_def)
  moreover have "1 \<le> py_round2 (uniform 1 1000 (random_random g pos))"
    "py_round2 (uniform 1 1000 (random_random g pos)) \<le> 1000"
    using py_round2_range[OF uniform_range[OF random_random_range]] by blast+
  ultimately show ?thesis
    using choices_alphabet(1)[of g "pos + 1" 10]
    by (simp add: well_formed_record_def gen_record_def)
qed

lemma generate_loop_well_formed:
  "\<forall>r \<in> set batch. well_formed_record r \<Longrightarrow>
     \<forall>b \<in> set (fst (generate_loop g bs is pos batch)). \<forall>r \<in> set b. well_formed_record r"
proof (induction "is" arbitrary: pos batch)
  case Nil
  then show ?case by simp
next
  case (Cons i "is")
  have step: "\<forall>r \<in> set (batch @ [gen_record g pos]). well_formed_record r"
    using Cons.prems gen_record_well_formed by simp
  show ?case
    using Cons.IH[of "[]" "pos + 11"] Cons.IH[OF step, of "pos + 11"] step
    by (simp add: Let_def case_prod_beta)
qed

lemma insert_loop_well_formed:
  "\<forall>r \<in> set recs. well_formed_record r \<Longrightarrow>
     \<forall>b \<in> set (executed_batches (fst (insert_loop env g c sql bs is pos k recs))).
       \<forall>r \<in> set b. well_formed_record r"
proof (induction "is" arbitrary: pos k recs)
  case Nil
  then show ?case by (simp add: case_prod_beta) (simp add: executed_batches_def)
next
  case (Cons i "is")
  let ?recs' = "recs @ [gen_record g pos]"
  have step: "\<forall>r \<in> set ?recs'. well_formed_record r"
    using Cons.prems gen_record_well_formed by simp
  show ?case
  proof (cases "bs = 0")
    case True
    then show ?thesis by (simp add: executed_batches_def)
  next
    case nz: False
    show ?thesis
    proof (cases "i mod bs = 0")
      case False
      with nz Cons.IH[OF step, of "pos + 11" k] show ?thesis by simp
    next
      case True
      obtain ev e where ib: "insert_batch env c sql k ?recs' = (ev, e)"
        by (cases "insert_batch env c sql k ?recs'")
      have ex: "executed_batches ev = [?recs']"
        using executed_batches_insert_batch[of env c sql k ?recs'] ib by simp
      show ?thesis
      proof (cases e)
        case (Some err)
        with nz True ib ex step show ?thesis by simp
      next
        case None
        with nz True ib ex step Cons.IH[of "[]" "pos + 11" "Suc k"] show ?thesis
          by (simp add: case_prod_beta)
      qed
    qed
  qed
qed

text \<open>
  Claim C5. Every generated record is well formed: the two generating statements yield a
  description of exactly ten characters, each of the 62-symbol alphabet \<open>[A-Za-z0-9]\<close>, and
  an amount that is a float in \<open>[1, 1000]\<close> with two decimal places (the float nearest to a
  whole number of hundredths); so is every record of every batch that
  \<^verbatim>\<open>generate_batches\<close> yields and of every batch that \<^verbatim>\<open>insert_records\<close> passes to
  \<^verbatim>\<open>execute_values\<close>.
\<close>

theorem generated_records_well_formed:
  "well_formed_record (gen_record g pos)
   \<and> (\<forall>b \<in> set (fst (generate_batches g pos num_records batch_size)).
        \<forall>r \<in> set b. well_formed_record r)
   \<and> (\<forall>b \<in> set (executed_batches
          (fst (insert_records env g pos c table_name num_records batch_size))).
        \<forall>r \<in> set b. well_formed_record r)
   \<and> length alphabet = 62 \<and> distinct alphabet \<and> list_all is_alnum alphabet"
proof -
  have a: "\<forall>b \<in> set (fst (generate_batches g pos num_records batch_size)).
        \<forall>r \<in> set b. well_formed_record r"
    unfolding generate_batches_def by (rule generate_loop_well_formed) simp
  have l: "\<forall>b \<in> set (executed_batches (fst (insert_loop env g c (insert_sql table_name)
        batch_size [1..num_records] pos 0 []))). \<forall>r \<in> set b. well_formed_record r"
    by (rule insert_loop_well_formed) simp
  have b: "\<forall>b \<in> set (executed_batches
          (fst (insert_records env g pos c table_name num_records batch_size))).
        \<forall>r \<in> set b. well_formed_record r"
  proof (cases "cursor_outcome env")
    case (Some e)
    then show ?thesis by (simp add: insert_records_def executed_batches_def)
  next
    case None
    have "executed_batches (fst (insert_records env g pos c table_name num_records batch_size)) =
        executed_batches (fst (insert_loop env g c (insert_sql table_name)
          batch_size [1..num_records] pos 0 []))"
      by (simp add: insert_records_def None case_prod_beta) (simp add: executed_batches_def)
    with l show ?thesis by simp
  qed
  from a b gen_record_well_formed alphabet_62 alphabet_alnum show ?thesis by blast
qed

theorem generated_records_well_formed_witness:
  "gen_record (\<lambda>_. 1162219258676257) 0 = (fl (12990 / 100), ''iiiiiiiiii'')
   \<and> well_formed_record (fl (12990 / 100), ''iiiiiiiiii'')
   \<and> [gen_record (\<lambda>_. 1162219258676257) 0]
        \<in> set (fst (generate_batches (\<lambda>_. 1162219258676257) 0 2 1))"
proof -
  have r: "random_random (\<lambda>_. 1162219258676257) j = 1162219258676257 / 2 ^ 53" for j
    by (simp add: random_random_def)
  have a: "py_round2 (uniform 1 1000 (random_random (\<lambda>_. 1162219258676257) 0)) =
      fl (12990 / 100)"
    unfolding r by code_simp
  have i: "nat \<lfloor>fmul (random_random (\<lambda>_. 1162219258676257) j) (of_nat (length alphabet))\<rfloor> = 8"
    for j
    unfolding r alphabet_62(1) by code_simp
  have u: "[Suc 0..<11] = [1, 2, 3, 4, 5, 6, 7, 8, 9, 10]" by code_simp
  have d: "choices (\<lambda>_. 1162219258676257) (0 + 1) alphabet 10 = ''iiiiiiiiii''"
    unfolding choices_def i by (simp add: u alphabet_def ascii_letters_def digits_def)
  have g: "gen_record (\<lambda>_. 1162219258676257) 0 = (fl (12990 / 100), ''iiiiiiiiii'')"
    unfolding gen_record_def a d ..
  have m: "[gen_record (\<lambda>_. 1162219258676257) 0]
      \<in> set (fst (generate_batches (\<lambda>_. 1162219258676257) 0 2 1))"
    unfolding generate_batches_2_1 by simp
  have w: "well_formed_record (fl (12990 / 100), ''iiiiiiiiii'')"
    using generated_records_well_formed[where g = "\<lambda>_. 1162219258676257" and pos = 0
      and num_records = 2 and batch_size = 1 and env = env_second_batch_fails and c = 7
      and table_name = "''transactions_1''"]
    unfolding g by blast
  from g w m show ?thesis by blast
qed

section \<open>Properties of the URL parsers\<close>

lemma split_from_first:
  "split_from sep cur s =
     (if sep \<in> set s
      then (cur @ takeWhile (\<lambda>ch. ch \<noteq> sep) s)
             # split_from sep [] (tl (dropWhile (\<lambda>ch. ch \<noteq> sep) s))
      else [cur @ s])"
  by (induction s arbitrary: cur) simp_all

lemma split_from_length: "sep \<in> set s \<Longrightarrow> 2 \<le> length (split_from sep cur s)"
  by (induction s arbitrary: cur) (auto simp: split_from_first)

lemma unpack2_long: "3 \<le> length xs \<Longrightarrow> unpack2 xs = Inl ValueError"
  by (cases xs rule: unpack2.cases) simp_all

lemma dropWhile_keeps: "x \<in> set xs \<Longrightarrow> \<not> P x \<Longrightarrow> x \<in> set (dropWhile P xs)"
  by (induction xs) auto

lemma valid_digits_chars:
  "valid_digits s \<Longrightarrow> ch \<in> set s \<Longrightarrow> is_digit ch \<or> ch = CHR ''_''"
  by (induction s rule: valid_digits.induct) (auto split: if_splits)

lemma colon_not_int_char:
  "\<not> is_space CHR '':''" "\<not> is_digit CHR '':''"
  by (simp_all add: is_space_def is_digit_def)

lemma py_int_colon:
  assumes "CHR '':'' \<in> set s"
  shows "py_int s = Inl ValueError"
proof -
  have "CHR '':'' \<in> set (dropWhile is_space s)"
    using assms colon_not_int_char(1) by (rule dropWhile_keeps)
  then have "CHR '':'' \<in> set (rev (dropWhile is_space s))" by simp
  then have "CHR '':'' \<in> set (dropWhile is_space (rev (dropWhile is_space s)))"
    using colon_not_int_char(1) by (rule dropWhile_keeps)
  then have t: "CHR '':'' \<in> set (strip s)" by (simp add: strip_def)
  have "\<not> valid_digits body" if "CHR '':'' \<in> set body" for body
    using valid_digits_chars[of body "CHR '':''"] that colon_not_int_char(2) by auto
  then show ?thesis
    using t by (auto simp: py_int_def Let_def split: list.splits)
qed

lemma host_port_split:
  "(case unpack2 (split_all CHR '':'' hp) of
      Inl e \<Rightarrow> Inl ValueError
    | Inr (h, p) \<Rightarrow>
        (case py_int p of
           Inl e \<Rightarrow> Inl ValueError
         | Inr n \<Rightarrow> Inr \<lparr>host = h, port = n, dbname = db\<rparr>)) =
   (case unpack2 (split_once CHR '':'' hp) of
      Inl e \<Rightarrow> Inl ValueError
    | Inr (h, p) \<Rightarrow>
        (case py_int p of
           Inl e \<Rightarrow> Inl ValueError
         | Inr n \<Rightarrow> Inr \<lparr>host = h, port = n, dbname = db\<rparr>))"
proof (cases "CHR '':'' \<in> set hp")
  case False
  then show ?thesis by (simp add: split_all_def split_once_def split_from_first)
next
  case True
  let ?a = "takeWhile (\<lambda>ch. ch \<noteq> CHR '':'') hp"
  let ?rest = "tl (dropWhile (\<lambda>ch. ch \<noteq> CHR '':'') hp)"
  have once: "split_once CHR '':'' hp = [?a, ?rest]" using True by (simp add: split_once_def)
  have all: "split_all CHR '':'' hp = ?a # split_from CHR '':'' [] ?rest"
    using True by (simp add: split_all_def split_from_first[of _ "[]" hp])
  show ?thesis
  proof (cases "CHR '':'' \<in> set ?rest")
    case False
    then have "split_from CHR '':'' [] ?rest = [?rest]"
      by (simp add: split_from_first[of _ "[]" ?rest])
    then show ?thesis by (simp add: once all)
  next
    case True
    then have "3 \<le> length (split_all CHR '':'' hp)"
      using split_from_length[of "CHR '':''" ?rest "[]"] by (simp add: all)
    then have "unpack2 (split_all CHR '':'' hp) = Inl ValueError" by (rule unpack2_long)
    moreover have "py_int ?rest = Inl ValueError" using True by (rule py_int_colon)
    ultimately show ?thesis by (simp add: once)
  qed
qed

text \<open>
  Claim C9. The two \<^verbatim>\<open>parse_jdbc_url\<close> functions agree on every string: both raise
  \<^verbatim>\<open>ValueError\<close>, the only exception either raises, or both return the same dictionary.
  They differ only where the part before the first \<open>/\<close> has two colons or more: there
  \<^verbatim>\<open>split(':')\<close> gives more than two parts, and \<^verbatim>\<open>split(":", 1)\<close> leaves a colon in the port,
  which \<^verbatim>\<open>int\<close> rejects.
\<close>

theorem parse_jdbc_url_equivalent:
  "parse_jdbc_url jdbc_url = parse_jdbc_url_test_connection jdbc_url
   \<and> (parse_jdbc_url jdbc_url = Inl ValueError \<or> (\<exists>p. parse_jdbc_url jdbc_url = Inr p))"
proof -
  have eq: "parse_jdbc_url jdbc_url = parse_jdbc_url_test_connection jdbc_url"
    unfolding parse_jdbc_url_def parse_jdbc_url_test_connection_def Let_def
    by (simp add: host_port_split split: sum.splits prod.splits)
  have "parse_jdbc_url jdbc_url = Inl ValueError \<or> (\<exists>p. parse_jdbc_url jdbc_url = Inr p)"
    unfolding parse_jdbc_url_def Let_def
    by (simp split: sum.splits prod.splits)
  with eq show ?thesis by simp
qed

text \<open>A well-formed URL, and one with two colons before the slash.\<close>

lemma parse_jdbc_url_example:
  "parse_jdbc_url ''jdbc:postgresql://localhost:5432/mydb'' =
     Inr \<lparr>host = ''localhost'', port = 5432, dbname = ''mydb''\<rparr>"
  by (simp add: parse_jdbc_url_def startswith_def split_once_def split_all_def py_int_def
      strip_def is_space_def is_digit_def digits_value_def int_max_str_digits_def)

lemma parse_jdbc_url_two_colons:
  "parse_jdbc_url ''postgresql://a:b:1/x'' = Inl ValueError"
  "parse_jdbc_url_test_connection ''postgresql://a:b:1/x'' = Inl ValueError"
  by (simp_all add: parse_jdbc_url_def parse_jdbc_url_test_connection_def startswith_def
      split_once_def split_all_def py_int_def strip_def is_space_def is_digit_def)

section \<open>Properties of the configuration loader\<close>

lemma py_getitem_Inr:
  "py_getitem j key = Inr v \<Longrightarrow> \<exists>kvs. j = JObj kvs \<and> map_of kvs key = Some v"
  by (cases j) (auto split: option.splits)

lemma py_get_Inr:
  "py_get j key dflt = Inr v \<Longrightarrow>
     \<exists>kvs. j = JObj kvs \<and> v = (case map_of kvs key of None \<Rightarrow> dflt | Some w \<Rightarrow> w)"
  by (cases j) auto

lemma load_db_config_with_sslmode:
  assumes "load_db_config_with parse config_data alias = Inr p"
  shows "sslmode p = (if truthy (ssl_flag config_data alias) then ''require'' else ''disable'')"
proof -
  from assms obtain conn_info ssl where
    ci: "py_getitem config_data alias = Inr conn_info"
    and gs: "py_get conn_info ''ssl'' JNull = Inr ssl"
    and p: "sslmode p = (if truthy ssl then ''require'' else ''disable'')"
    unfolding load_db_config_with_def
    by (auto split: sum.splits bool.splits)
  from py_get_Inr[OF gs] obtain kvs where
    kvs: "conn_info = JObj kvs"
    "ssl = (case map_of kvs ''ssl'' of None \<Rightarrow> JNull | Some w \<Rightarrow> w)" by blast
  have "ssl_flag config_data alias = ssl" by (simp add: ssl_flag_def ci kvs)
  then show ?thesis by (simp add: p)
qed

text \<open>
  Claim C7. Whenever \<^verbatim>\<open>load_db_config\<close> (of either module) accepts a configuration, the
  \<^verbatim>\<open>sslmode\<close> of the result is \<^verbatim>\<open>"require"\<close> when the \<^verbatim>\<open>ssl\<close> entry of the alias is true (as
  Python tests it; an absent entry is \<^verbatim>\<open>None\<close>) and \<^verbatim>\<open>"disable"\<close> otherwise; it is one of
  these two strings; for a boolean entry it is \<^verbatim>\<open>"require"\<close> exactly for \<^verbatim>\<open>true\<close>.
\<close>

theorem load_db_config_sslmode:
  assumes "load_db_config config_data alias = Inr p
         \<or> load_db_config_test_connection config_data alias = Inr p"
  shows "sslmode p = (if truthy (ssl_flag config_data alias) then ''require'' else ''disable'')
       \<and> (sslmode p = ''require'' \<or> sslmode p = ''disable'')
       \<and> (\<forall>b. ssl_flag config_data alias = JBool b \<longrightarrow>
             sslmode p = (if b then ''require'' else ''disable''))"
proof -
  have "sslmode p = (if truthy (ssl_flag config_data alias) then ''require'' else ''disable'')"
    using assms load_db_config_with_sslmode
    unfolding load_db_config_def load_db_config_test_connection_def by blast
  then show ?thesis by auto
qed

theorem load_db_config_sslmode_witness:
  "load_db_config example_config ''PSQLDS1'' =
     Inr \<lparr>host = ''localhost'', port = 5432, dbname = ''mydb'', user = JStr ''myuser'',
          password = JStr ''mypassword'', sslmode = ''require''\<rparr>
   \<and> ssl_flag example_config ''PSQLDS1'' = JBool True"
proof -
  have l: "load_db_config example_config ''PSQLDS1'' =
     Inr \<lparr>host = ''localhost'', port = 5432, dbname = ''mydb'', user = JStr ''myuser'',
          password = JStr ''mypassword'', sslmode = ''require''\<rparr>"
    by (simp add: load_db_config_def load_db_config_with_def example_config_def
        parse_jdbc_url_example)
  have f: "ssl_flag example_config ''PSQLDS1'' = JBool True"
    by (simp add: ssl_flag_def example_config_def)
  have "load_db_config example_config ''PSQLDS1'' =
      Inr \<lparr>host = ''localhost'', port = 5432, dbname = ''mydb'', user = JStr ''myuser'',
          password = JStr ''mypassword'', sslmode = ''require''\<rparr>
    \<or> load_db_config_test_connection example_config ''PSQLDS1'' =
      Inr \<lparr>host = ''localhost'', port = 5432, dbname = ''mydb'', user = JStr ''myuser'',
          password = JStr ''mypassword'', sslmode = ''require''\<rparr>"
    using l by simp
  from load_db_config_sslmode[OF this] l f show ?thesis by simp
qed

end
